theory Spec2Isabelle
  imports Main
begin

section \<open>The data of EngineView.js\<close>

text \<open>
  The theory embeds the map logic of \<^verbatim>\<open>src/js/traviso/EngineView.js\<close>: the table of
  object references per cell, the calls the view makes on its path finder and its move
  engine, and the movement of an object along a path.

  A map location is the JavaScript object \<^verbatim>\<open>{ c: column, r: row }\<close>. Columns and rows are
  whole numbers; they are doubles in the source and integers here, the same numbers
  with the same arithmetic within the safe integers (\<open>safeInteger\<close> below).
\<close>

record pos =
  c :: int
  r :: int

text \<open>
  Map-objects are JavaScript objects compared by reference (\<^verbatim>\<open>indexOf\<close>), and one object is
  reachable from several cells and from \<^verbatim>\<open>currentControllable\<close>. They live in a store
  indexed by their identity; every other place holds the identity.
\<close>

type_synonym oid = nat

text \<open>
  The fields of an \<^verbatim>\<open>ObjectView\<close> that EngineView.js reads or writes. A path is the array
  of path items returned by the path finder; the view only ever reads the \<^verbatim>\<open>mapPos\<close> of an
  item, so an item is its \<^verbatim>\<open>mapPos\<close>. \<^verbatim>\<open>currentTarget\<close> is a pixel point or null, and
  \<^verbatim>\<open>alpha\<close> is kept in percent (the view writes 1 and 0.7).
\<close>

record ObjectView =
  isMovableTo :: bool
  columnSpan :: int
  rowSpan :: int
  mapPos :: pos
  currentPath :: "pos list option"
  currentPathStep :: int
  currentTarget :: "(int \<times> int) option"
  currentTargetTile :: "pos option"
  currentDirection :: nat
  currentInteractionOffset :: "pos option"
  isFloorObject :: bool
  noTransparency :: bool
  alpha :: nat

record TileView =
  tile_mapPos :: pos
  tile_isMovableTo :: bool

text \<open>
  The entries of \<^verbatim>\<open>this.config\<close> that the embedded methods read. A callback is present or
  not; \<open>pathFindingDiagonal\<close> is the test
  \<^verbatim>\<open>config.pathFindingType === TRAVISO.pfAlgorithms.ASTAR_DIAGONAL\<close>.
\<close>

record Config =
  instantObjectRelocation :: bool
  highlightPath :: bool
  changeTransperancies :: bool
  checkPathOnEachTile :: bool
  tileHighlightAnimated :: bool
  objectReachedDestinationCallback :: bool
  pathFindingDiagonal :: bool
  pathFindingClosest :: bool

text \<open>
  \<^verbatim>\<open>TRAVISO.PathFinding\<close>, \<^verbatim>\<open>TRAVISO.MoveEngine\<close>, \<^verbatim>\<open>TileView\<close> and \<^verbatim>\<open>ObjectView\<close> are not part
  of the sources. Every call the view makes on them is recorded, in program order, with
  the arguments in the order the view passes them (and the value a query returned).
\<close>

datatype call =
    PF_new int int bool bool
  | PF_setCell int int int
  | PF_setDynamicCell int int int
  | PF_isCellFilled int int bool
  | PF_solve int int int int "pos list option"
  | PF_getAdjacentOpenCells int int int int "pos list"
  | PF_destroy
  | ME_prepareForMove oid "pos list" "int option"
  | ME_setMoveParameters oid pos
  | ME_addMovable oid
  | ME_removeMovable oid
  | ME_destroy
  | Obj_changeVisualToDirection oid nat bool
  | Obj_destroy oid
  | Tile_destroy pos
  | Tile_setHighlighted pos bool "bool option"
  | Container_addChild oid
  | Callback_objectReachedDestination oid

text \<open>
  A JavaScript array of arrays: the rows are the indices \<open>0 \<le> i < length\<close> of the outer
  array, and a row maps a column key to its entry (\<open>None\<close> is \<^verbatim>\<open>null\<close> or \<^verbatim>\<open>undefined\<close>;
  JavaScript stores an entry under any key, also outside the row's length).
  Fields that \<^verbatim>\<open>destroy\<close> sets to \<^verbatim>\<open>null\<close> are options; \<open>pathFinding\<close> and \<open>moveEngine\<close> say
  whether the field holds an instance. \<open>nextOid\<close> is the identity the next
  \<^verbatim>\<open>new TRAVISO.ObjectView\<close> takes.
\<close>

text \<open>
  \<^verbatim>\<open>this.mapData\<close>: an entry of the ground or object map is a type id, or a falsy value
  (\<open>None\<close>); \<^verbatim>\<open>initialControllableLocation\<close> is \<^verbatim>\<open>(columnIndex, rowIndex)\<close>.
\<close>

record MapData =
  groundMapData :: "nat option list list"
  objectsMapData :: "nat option list list"
  initialControllableLocation :: "(int \<times> int) option"

record EngineView =
  mapData :: "MapData option"
  nextOid :: oid
  mapSizeR :: int
  mapSizeC :: int
  tileArray :: "(int \<Rightarrow> TileView option) list option"
  objArray :: "(int \<Rightarrow> oid list option) list option"
  pathFinding :: bool
  moveEngine :: bool
  currentControllable :: "oid option"
  config :: "Config option"
  objects :: "oid \<Rightarrow> ObjectView"
  calls :: "call list"

text \<open>
  A method either returns or throws; a thrown exception leaves the state as it was
  mutated up to the throw. \<open>TypeError\<close> is what reading a property of \<^verbatim>\<open>null\<close> or
  \<^verbatim>\<open>undefined\<close>, or calling an undefined method, raises.
\<close>

datatype error = TypeError | Error string

datatype 'a outcome = Return 'a | Throw error

section \<open>Array primitives\<close>

text \<open>\<^verbatim>\<open>Array.prototype.indexOf\<close>: the first index of the element, or -1.\<close>

fun indexOf :: "'a list \<Rightarrow> 'a \<Rightarrow> int" where
  "indexOf [] x = - 1"
| "indexOf (y # ys) x =
     (if y = x then 0 else (let i = indexOf ys x in if i < 0 then - 1 else i + 1))"

text \<open>
  \<^verbatim>\<open>xs.splice(start, 1)\<close>: a negative start counts from the end, and a start beyond the
  array removes nothing.
\<close>

definition splice1 :: "'a list \<Rightarrow> int \<Rightarrow> 'a list" where
  "splice1 xs start =
     (let n = int (length xs);
          st = (if start < 0 then max (n + start) 0 else min start n)
      in take (nat st) xs @ drop (nat st + 1) xs)"

text \<open>\<^verbatim>\<open>this.objArray[pos.r][pos.c]\<close>, read and written.\<close>

definition objArray_get :: "EngineView \<Rightarrow> pos \<Rightarrow> (oid list option) outcome" where
  "objArray_get s p =
     (case objArray s of
        None \<Rightarrow> Throw TypeError
      | Some rows \<Rightarrow>
          if 0 \<le> r p \<and> r p < int (length rows)
          then Return ((rows ! nat (r p)) (c p))
          else Throw TypeError)"

definition objArray_set :: "pos \<Rightarrow> oid list option \<Rightarrow> EngineView \<Rightarrow> EngineView" where
  "objArray_set p v s =
     (case objArray s of
        None \<Rightarrow> s
      | Some rows \<Rightarrow>
          if 0 \<le> r p \<and> r p < int (length rows)
          then s\<lparr>objArray := Some (rows[nat (r p) := (rows ! nat (r p))(c p := v)])\<rparr>
          else s)"

text \<open>\<^verbatim>\<open>this.pathFinding.setDynamicCell(a, b, w)\<close> and \<^verbatim>\<open>this.pathFinding.setCell(a, b, w)\<close>.\<close>

definition setDynamicCell :: "int \<Rightarrow> int \<Rightarrow> int \<Rightarrow> EngineView \<Rightarrow> unit outcome \<times> EngineView" where
  "setDynamicCell a b w s =
     (if pathFinding s then (Return (), s\<lparr>calls := calls s @ [PF_setDynamicCell a b w]\<rparr>)
      else (Throw TypeError, s))"

definition setCell :: "int \<Rightarrow> int \<Rightarrow> int \<Rightarrow> EngineView \<Rightarrow> unit outcome \<times> EngineView" where
  "setCell a b w s =
     (if pathFinding s then (Return (), s\<lparr>calls := calls s @ [PF_setCell a b w]\<rparr>)
      else (Throw TypeError, s))"

section \<open>Object references per cell\<close>

text \<open>
  \<^verbatim>\<open>addObjRefToSingleLocation\<close>: creates the cell's list when there is none, appends the
  object unless the list holds it, and blocks the cell when the object cannot be moved
  onto.
\<close>

definition addObjRefToSingleLocation :: "oid \<Rightarrow> pos \<Rightarrow> EngineView \<Rightarrow> unit outcome \<times> EngineView" where
  "addObjRefToSingleLocation obj p s =
     (case objArray_get s p of
        Throw e \<Rightarrow> (Throw e, s)
      | Return cell \<Rightarrow>
          (let s1 = (if cell = None then objArray_set p (Some []) s else s);
               a = (case cell of None \<Rightarrow> [] | Some l \<Rightarrow> l);
               index = indexOf a obj;
               s2 = (if index < 0 then objArray_set p (Some (a @ [obj])) s1 else s1)
           in if \<not> isMovableTo (objects s2 obj)
              then setDynamicCell (c p) (r p) 0 s2
              else (Return (), s2)))"

text \<open>
  The loop of \<^verbatim>\<open>removeObjRefFromSingleLocation\<close> over the remaining references
  \<^verbatim>\<open>a[0..l-1]\<close>, from index \<open>i\<close>: the first object that cannot be moved onto blocks the
  cell and ends the loop; the last index, when reached, opens the cell.
\<close>

function removeObjRef_scan ::
  "oid list \<Rightarrow> nat \<Rightarrow> pos \<Rightarrow> nat \<Rightarrow> EngineView \<Rightarrow> unit outcome \<times> EngineView" where
  "removeObjRef_scan a l p i s =
     (if i < l then
        (if \<not> isMovableTo (objects s (a ! i)) then setDynamicCell (c p) (r p) 0 s
         else if int i = int l - 1 then
           (case setDynamicCell (c p) (r p) 1 s of
              (Throw e, s') \<Rightarrow> (Throw e, s')
            | (Return u, s') \<Rightarrow> removeObjRef_scan a l p (i + 1) s')
         else removeObjRef_scan a l p (i + 1) s)
      else (Return (), s))"
  by pat_completeness auto
termination
  by (relation "measure (\<lambda>(a, l, p, i, s). l - i)") auto

declare removeObjRef_scan.simps [simp del]

definition removeObjRefFromSingleLocation :: "oid \<Rightarrow> pos \<Rightarrow> EngineView \<Rightarrow> unit outcome \<times> EngineView" where
  "removeObjRefFromSingleLocation obj p s =
     (case objArray_get s p of
        Throw e \<Rightarrow> (Throw e, s)
      | Return None \<Rightarrow> (Return (), s)
      | Return (Some a0) \<Rightarrow>
          (let index = indexOf a0 obj;
               a = (if index > - 1 then splice1 a0 index else a0);
               s1 = (if index > - 1 then objArray_set p (Some a) s else s)
           in if length a = 0 then
                (case setDynamicCell (c p) (r p) 1 s1 of
                   (Throw e, s') \<Rightarrow> (Throw e, s')
                 | (Return u, s') \<Rightarrow> (Return (), objArray_set p None s'))
              else removeObjRef_scan a (length a) p 0 s1))"

text \<open>\<^verbatim>\<open>removeAllObjectRefsFromLocation\<close>.\<close>

definition removeAllObjectRefsFromLocation :: "pos \<Rightarrow> EngineView \<Rightarrow> unit outcome \<times> EngineView" where
  "removeAllObjectRefsFromLocation p s =
     (case objArray_get s p of
        Throw e \<Rightarrow> (Throw e, s)
      | Return None \<Rightarrow> (Return (), s)
      | Return (Some a) \<Rightarrow>
          (case setDynamicCell (c p) (r p) 1 s of
             (Throw e, s') \<Rightarrow> (Throw e, s')
           | (Return u, s') \<Rightarrow> (Return (), objArray_set p None s')))"

text \<open>
  \<^verbatim>\<open>addObjRefToLocation\<close>: the inner loop \<^verbatim>\<open>for (m = pos.r; m > pos.r - obj.rowSpan; m--)\<close>
  and the outer loop \<^verbatim>\<open>for (k = pos.c; k < pos.c + obj.columnSpan; k++)\<close>. Each bound is
  read from the object at every test, as the source does; an exception leaves the loops.
  The counters and bounds are computed on integers: this is the arithmetic of the source
  for locations and spans within the safe integers (\<open>withinSafeIntegers\<close> below), where
  the doubles of JavaScript add and subtract exactly, and the statements about these
  loops assume it. Beyond \<open>2 ^ 53\<close> the source rounds and the embedding does not follow it.
\<close>

function addObjRefToLocation_m ::
  "oid \<Rightarrow> pos \<Rightarrow> int \<Rightarrow> int \<Rightarrow> EngineView \<Rightarrow> unit outcome \<times> EngineView" where
  "addObjRefToLocation_m obj p k m s =
     (if m > r p - rowSpan (objects s obj) then
        (case addObjRefToSingleLocation obj \<lparr>c = k, r = m\<rparr> s of
           (Throw e, s') \<Rightarrow> (Throw e, s')
         | (Return u, s') \<Rightarrow> addObjRefToLocation_m obj p k (m - 1) s')
      else (Return (), s))"
  by pat_completeness auto
termination
proof (relation "measure (\<lambda>(obj, p, k, m, s). nat (m - (r p - rowSpan (objects s obj))))", goal_cases)
  case 1
  show ?case by simp
next
  case (2 obj p k m s x s' u)
  have "objects (snd (addObjRefToSingleLocation obj \<lparr>c = k, r = m\<rparr> s)) = objects s"
    by (auto simp: addObjRefToSingleLocation_def setDynamicCell_def objArray_set_def Let_def
        split: outcome.splits option.splits)
  with 2(2)[symmetric] have "objects s' = objects s" by simp
  with 2(1) show ?case by simp
qed

declare addObjRefToLocation_m.simps [simp del]

function addObjRefToLocation_k ::
  "oid \<Rightarrow> pos \<Rightarrow> int \<Rightarrow> EngineView \<Rightarrow> unit outcome \<times> EngineView" where
  "addObjRefToLocation_k obj p k s =
     (if k < c p + columnSpan (objects s obj) then
        (case addObjRefToLocation_m obj p k (r p) s of
           (Throw e, s') \<Rightarrow> (Throw e, s')
         | (Return u, s') \<Rightarrow> addObjRefToLocation_k obj p (k + 1) s')
      else (Return (), s))"
  by pat_completeness auto
termination
proof (relation "measure (\<lambda>(obj, p, k, s). nat (c p + columnSpan (objects s obj) - k))", goal_cases)
  case 1
  show ?case by simp
next
  case (2 obj p k s x s' u)
  have single: "objects (snd (addObjRefToSingleLocation ob q t)) = objects t" for ob q t
    by (auto simp: addObjRefToSingleLocation_def setDynamicCell_def objArray_set_def Let_def
        split: outcome.splits option.splits)
  have inner: "objects (snd (addObjRefToLocation_m ob q j m t)) = objects t" for ob q j m t
  proof (induction ob q j m t rule: addObjRefToLocation_m.induct)
    case (1 obj p k m t)
    show ?case
    proof (cases "addObjRefToSingleLocation obj \<lparr>c = k, r = m\<rparr> t")
      case (Pair res t')
      with single[of obj "\<lparr>c = k, r = m\<rparr>" t] have t': "objects t' = objects t" by simp
      show ?thesis
      proof (cases res)
        case (Return u')
        with Pair t' "1.IH" show ?thesis
          by (subst addObjRefToLocation_m.simps) auto
      next
        case (Throw e)
        with Pair t' show ?thesis
          by (subst addObjRefToLocation_m.simps) simp
      qed
    qed
  qed
  have "objects (snd (addObjRefToLocation_m obj p k (r p) s)) = objects s"
    by (rule inner)
  with 2(2)[symmetric] have "objects s' = objects s" by simp
  with 2(1) show ?case by simp
qed

declare addObjRefToLocation_k.simps [simp del]

definition addObjRefToLocation :: "oid \<Rightarrow> pos \<Rightarrow> EngineView \<Rightarrow> unit outcome \<times> EngineView" where
  "addObjRefToLocation obj p s = addObjRefToLocation_k obj p (c p) s"

text \<open>
  \<^verbatim>\<open>removeObjRefFromLocation\<close>: the same two loops around the single-cell removal, with the
  same integer arithmetic for locations and spans within the safe integers.
\<close>

function removeObjRefFromLocation_m ::
  "oid \<Rightarrow> pos \<Rightarrow> int \<Rightarrow> int \<Rightarrow> EngineView \<Rightarrow> unit outcome \<times> EngineView" where
  "removeObjRefFromLocation_m obj p k m s =
     (if m > r p - rowSpan (objects s obj) then
        (case removeObjRefFromSingleLocation obj \<lparr>c = k, r = m\<rparr> s of
           (Throw e, s') \<Rightarrow> (Throw e, s')
         | (Return u, s') \<Rightarrow> removeObjRefFromLocation_m obj p k (m - 1) s')
      else (Return (), s))"
  by pat_completeness auto
termination
proof (relation "measure (\<lambda>(obj, p, k, m, s). nat (m - (r p - rowSpan (objects s obj))))", goal_cases)
  case 1
  show ?case by simp
next
  case (2 obj p k m s x s' u)
  have scan: "objects (snd (removeObjRef_scan a l q i t)) = objects t" for a l q i t
  proof (induction a l q i t rule: removeObjRef_scan.induct)
    case (1 a l q i t)
    then show ?case
      by (subst removeObjRef_scan.simps)
         (auto simp: setDynamicCell_def split: prod.splits outcome.splits)
  qed
  have "objects (snd (removeObjRefFromSingleLocation obj \<lparr>c = k, r = m\<rparr> s)) = objects s"
    by (auto simp: removeObjRefFromSingleLocation_def setDynamicCell_def objArray_set_def Let_def scan
        split: outcome.splits option.splits)
  with 2(2)[symmetric] have "objects s' = objects s" by simp
  with 2(1) show ?case by simp
qed

declare removeObjRefFromLocation_m.simps [simp del]

function removeObjRefFromLocation_k ::
  "oid \<Rightarrow> pos \<Rightarrow> int \<Rightarrow> EngineView \<Rightarrow> unit outcome \<times> EngineView" where
  "removeObjRefFromLocation_k obj p k s =
     (if k < c p + columnSpan (objects s obj) then
        (case removeObjRefFromLocation_m obj p k (r p) s of
           (Throw e, s') \<Rightarrow> (Throw e, s')
         | (Return u, s') \<Rightarrow> removeObjRefFromLocation_k obj p (k + 1) s')
      else (Return (), s))"
  by pat_completeness auto
termination
proof (relation "measure (\<lambda>(obj, p, k, s). nat (c p + columnSpan (objects s obj) - k))", goal_cases)
  case 1
  show ?case by simp
next
  case (2 obj p k s x s' u)
  have scan: "objects (snd (removeObjRef_scan a l q i t)) = objects t" for a l q i t
  proof (induction a l q i t rule: removeObjRef_scan.induct)
    case (1 a l q i t)
    then show ?case
      by (subst removeObjRef_scan.simps)
         (auto simp: setDynamicCell_def split: prod.splits outcome.splits)
  qed
  have single: "objects (snd (removeObjRefFromSingleLocation ob q t)) = objects t" for ob q t
    by (auto simp: removeObjRefFromSingleLocation_def setDynamicCell_def objArray_set_def Let_def scan
        split: outcome.splits option.splits)
  have inner: "objects (snd (removeObjRefFromLocation_m ob q j m t)) = objects t" for ob q j m t
  proof (induction ob q j m t rule: removeObjRefFromLocation_m.induct)
    case (1 obj p k m t)
    show ?case
    proof (cases "removeObjRefFromSingleLocation obj \<lparr>c = k, r = m\<rparr> t")
      case (Pair res t')
      with single[of obj "\<lparr>c = k, r = m\<rparr>" t] have t': "objects t' = objects t" by simp
      show ?thesis
      proof (cases res)
        case (Return u')
        with Pair t' "1.IH" show ?thesis
          by (subst removeObjRefFromLocation_m.simps) auto
      next
        case (Throw e)
        with Pair t' show ?thesis
          by (subst removeObjRefFromLocation_m.simps) simp
      qed
    qed
  qed
  have "objects (snd (removeObjRefFromLocation_m obj p k (r p) s)) = objects s"
    by (rule inner)
  with 2(2)[symmetric] have "objects s' = objects s" by simp
  with 2(1) show ?case by simp
qed

declare removeObjRefFromLocation_k.simps [simp del]

definition removeObjRefFromLocation :: "oid \<Rightarrow> pos \<Rightarrow> EngineView \<Rightarrow> unit outcome \<times> EngineView" where
  "removeObjRefFromLocation obj p s = removeObjRefFromLocation_k obj p (c p) s"

text \<open>
  \<^verbatim>\<open>arrangeObjLocation\<close>: the references leave the object's location and enter the new
  one, then \<^verbatim>\<open>obj.mapPos = { c: pos.c, r: pos.r }\<close>.
\<close>

definition arrangeObjLocation :: "oid \<Rightarrow> pos \<Rightarrow> EngineView \<Rightarrow> unit outcome \<times> EngineView" where
  "arrangeObjLocation obj p s =
     (case removeObjRefFromLocation obj (mapPos (objects s obj)) s of
        (Throw e, s1) \<Rightarrow> (Throw e, s1)
      | (Return u, s1) \<Rightarrow>
          (case addObjRefToLocation obj p s1 of
             (Throw e, s2) \<Rightarrow> (Throw e, s2)
           | (Return u, s2) \<Rightarrow>
               (Return (),
                s2\<lparr>objects := (objects s2)(obj := (objects s2 obj)\<lparr>mapPos := \<lparr>c = c p, r = r p\<rparr>\<rparr>)\<rparr>)))"

text \<open>Running a loop body on the elements of a list in turn, up to the first throw.\<close>

fun forEach ::
  "('a \<Rightarrow> EngineView \<Rightarrow> unit outcome \<times> EngineView) \<Rightarrow> 'a list \<Rightarrow> EngineView
     \<Rightarrow> unit outcome \<times> EngineView" where
  "forEach f [] s = (Return (), s)"
| "forEach f (q # qs) s =
     (case f q s of
        (Throw e, s') \<Rightarrow> (Throw e, s')
      | (Return u, s') \<Rightarrow> forEach f qs s')"

section \<open>Collaborators that are not in the sources\<close>

text \<open>
  What the path finder answers is a function of the calls made so far (its grid is the
  result of the \<^verbatim>\<open>setCell\<close> and \<^verbatim>\<open>setDynamicCell\<close> calls); what the move engine writes
  into a moving object is a function of the object and the arguments. The constructors
  of tiles and objects read the type tables of the map data. All of them are parameters
  of the embedding.
\<close>

record externals =
  solve_returns :: "call list \<Rightarrow> int \<Rightarrow> int \<Rightarrow> int \<Rightarrow> int \<Rightarrow> pos list option"
  isCellFilled_returns :: "call list \<Rightarrow> int \<Rightarrow> int \<Rightarrow> bool"
  getAdjacentOpenCells_returns :: "call list \<Rightarrow> int \<Rightarrow> int \<Rightarrow> int \<Rightarrow> int \<Rightarrow> pos list"
  prepareForMove_sets :: "ObjectView \<Rightarrow> pos list \<Rightarrow> int option \<Rightarrow> ObjectView"
  setMoveParameters_sets :: "ObjectView \<Rightarrow> pos \<Rightarrow> ObjectView"
  getDirBetween :: "int \<Rightarrow> int \<Rightarrow> int \<Rightarrow> int \<Rightarrow> nat"
  newTileView_isMovableTo :: "nat \<Rightarrow> bool"
  newObjectView :: "nat \<Rightarrow> ObjectView"

text \<open>The value \<^verbatim>\<open>checkAndMoveObjectToLocation\<close> returns: a number or a boolean.\<close>

datatype jsval = JNumber int | JBool bool

fun truthy :: "jsval \<Rightarrow> bool" where
  "truthy (JNumber n) = (n \<noteq> 0)"
| "truthy (JBool b) = b"

text \<open>\<^verbatim>\<open>xs[i]\<close> for a number \<open>i\<close>: \<^verbatim>\<open>undefined\<close> outside the array.\<close>

definition nthItem :: "'a list \<Rightarrow> int \<Rightarrow> 'a option" where
  "nthItem xs i = (if 0 \<le> i \<and> i < int (length xs) then Some (xs ! nat i) else None)"

section \<open>Tiles, highlights and display order\<close>

text \<open>\<^verbatim>\<open>this.tileArray[pos.r][pos.c]\<close>, read and written.\<close>

definition tileArray_get :: "EngineView \<Rightarrow> pos \<Rightarrow> (TileView option) outcome" where
  "tileArray_get s p =
     (case tileArray s of
        None \<Rightarrow> Throw TypeError
      | Some rows \<Rightarrow>
          if 0 \<le> r p \<and> r p < int (length rows)
          then Return ((rows ! nat (r p)) (c p))
          else Throw TypeError)"

definition tileArray_set :: "pos \<Rightarrow> TileView option \<Rightarrow> EngineView \<Rightarrow> EngineView" where
  "tileArray_set p v s =
     (case tileArray s of
        None \<Rightarrow> s
      | Some rows \<Rightarrow>
          if 0 \<le> r p \<and> r p < int (length rows)
          then s\<lparr>tileArray := Some (rows[nat (r p) := (rows ! nat (r p))(c p := v)])\<rparr>
          else s)"

text \<open>
  One item of a path in \<^verbatim>\<open>arrangePathHighlight\<close>: unless the other path holds the item,
  the tile at the item's location is looked up and \<^verbatim>\<open>setHighlighted(v)\<close> is called on it.
\<close>

definition highlightItem ::
  "bool \<Rightarrow> pos list option \<Rightarrow> pos \<Rightarrow> EngineView \<Rightarrow> unit outcome \<times> EngineView" where
  "highlightItem v other item s =
     (if (case other of None \<Rightarrow> True | Some ys \<Rightarrow> indexOf ys item = - 1) then
        (case tileArray_get s item of
           Throw e \<Rightarrow> (Throw e, s)
         | Return None \<Rightarrow> (Throw TypeError, s)
         | Return (Some tile) \<Rightarrow>
             (Return (), s\<lparr>calls := calls s @ [Tile_setHighlighted item v None]\<rparr>))
      else (Return (), s))"

definition arrangePathHighlight ::
  "pos list option \<Rightarrow> pos list option \<Rightarrow> EngineView \<Rightarrow> unit outcome \<times> EngineView" where
  "arrangePathHighlight cur new s =
     (case (case cur of None \<Rightarrow> (Return (), s)
            | Some xs \<Rightarrow> forEach (highlightItem False new) xs s) of
        (Throw e, s1) \<Rightarrow> (Throw e, s1)
      | (Return u, s1) \<Rightarrow>
          (case new of None \<Rightarrow> (Return (), s1)
           | Some ys \<Rightarrow> forEach (highlightItem True cur) ys s1))"

text \<open>\<^verbatim>\<open>changeObjAlphasInLocation(value, pos)\<close>.\<close>

definition changeObjAlphasInLocation :: "nat \<Rightarrow> pos \<Rightarrow> EngineView \<Rightarrow> unit outcome \<times> EngineView" where
  "changeObjAlphasInLocation v p s =
     (case objArray_get s p of
        Throw e \<Rightarrow> (Throw e, s)
      | Return None \<Rightarrow> (Return (), s)
      | Return (Some a) \<Rightarrow>
          (Return (),
           s\<lparr>objects :=
               fold (\<lambda>x h. if \<not> isFloorObject (h x) \<and> \<not> noTransparency (h x)
                            then h(x := (h x)\<lparr>alpha := v\<rparr>) else h) a (objects s)\<rparr>))"

text \<open>
  \<^verbatim>\<open>arrangeObjTransperancies(obj, prevPos, pos)\<close>: for the current controllable, the three
  cells in front of the previous location become opaque and the three in front of the new
  one translucent, each under its guard; then \<^verbatim>\<open>obj.alpha = 1\<close>.
\<close>

definition arrangeObjTransperancies ::
  "oid \<Rightarrow> pos \<Rightarrow> pos \<Rightarrow> EngineView \<Rightarrow> unit outcome \<times> EngineView" where
  "arrangeObjTransperancies obj prev p s =
     (case config s of
        None \<Rightarrow> (Throw TypeError, s)
      | Some cf \<Rightarrow>
          if changeTransperancies cf then
            (case (if currentControllable s = Some obj then
                     forEach (\<lambda>(v, q). changeObjAlphasInLocation v q)
                       ((if c prev > 0 then [(100, \<lparr>c = c prev - 1, r = r prev\<rparr>)] else []) @
                        (if c prev > 0 \<and> r prev < mapSizeR s - 1
                         then [(100, \<lparr>c = c prev - 1, r = r prev + 1\<rparr>)] else []) @
                        (if r prev < mapSizeR s - 1 then [(100, \<lparr>c = c prev, r = r prev + 1\<rparr>)] else []) @
                        (if c p > 0 then [(70, \<lparr>c = c p - 1, r = r p\<rparr>)] else []) @
                        (if c p > 0 \<and> r p < mapSizeR s - 1
                         then [(70, \<lparr>c = c p - 1, r = r p + 1\<rparr>)] else []) @
                        (if r p < mapSizeR s - 1 then [(70, \<lparr>c = c p, r = r p + 1\<rparr>)] else [])) s
                   else (Return (), s)) of
               (Throw e, s1) \<Rightarrow> (Throw e, s1)
             | (Return u, s1) \<Rightarrow>
                 (Return (), s1\<lparr>objects := (objects s1)(obj := (objects s1 obj)\<lparr>alpha := 100\<rparr>)\<rparr>))
          else (Return (), s))"

text \<open>
  \<^verbatim>\<open>arrangeDepthsFromLocation(pos)\<close>: rows from \<open>pos.r\<close> to the last, columns from \<open>pos.c\<close>
  down to 0; every object of a cell that is not a floor object is added to the object
  container again.
\<close>

definition depthsCell :: "pos \<Rightarrow> EngineView \<Rightarrow> unit outcome \<times> EngineView" where
  "depthsCell q s =
     (case objArray_get s q of
        Throw e \<Rightarrow> (Throw e, s)
      | Return None \<Rightarrow> (Return (), s)
      | Return (Some a) \<Rightarrow>
          (Return (),
           s\<lparr>calls := calls s @ map Container_addChild (filter (\<lambda>x. \<not> isFloorObject (objects s x)) a)\<rparr>))"

definition arrangeDepthsFromLocation :: "pos \<Rightarrow> EngineView \<Rightarrow> unit outcome \<times> EngineView" where
  "arrangeDepthsFromLocation p s =
     forEach depthsCell
       (concat (map (\<lambda>i. map (\<lambda>j. \<lparr>c = j, r = i\<rparr>) (rev [0 .. c p])) [r p .. mapSizeR s - 1])) s"

section \<open>Paths and movement\<close>

text \<open>
  \<^verbatim>\<open>getPath(from, to)\<close>: the call \<^verbatim>\<open>this.pathFinding.solve(from.c, from.r, to.c, to.r)\<close>, or
  the error thrown when there is no path finder. A falsy result is \<open>None\<close>.
\<close>

definition getPath ::
  "externals \<Rightarrow> pos \<Rightarrow> pos \<Rightarrow> EngineView \<Rightarrow> (pos list option) outcome \<times> EngineView" where
  "getPath X from_pos to_pos s =
     (if pathFinding s then
        (let res = solve_returns X (calls s) (c from_pos) (r from_pos) (c to_pos) (r to_pos)
         in (Return res,
             s\<lparr>calls := calls s @ [PF_solve (c from_pos) (r from_pos) (c to_pos) (r to_pos) res]\<rparr>))
      else (Throw (Error ''Path finding hasn't been initialized yet!''), s))"

text \<open>
  The method documented as \<^verbatim>\<open>stopObject\<close> is assigned to \<^verbatim>\<open>TRAVISO.EngineView.prototype.f\<close>.
\<close>

definition prototype_f :: "oid \<Rightarrow> EngineView \<Rightarrow> unit outcome \<times> EngineView" where
  "prototype_f obj s =
     (let s1 = s\<lparr>objects := (objects s)(obj := (objects s obj)
                 \<lparr>currentPath := None, currentTarget := None, currentTargetTile := None\<rparr>)\<rparr>
      in if moveEngine s1 then (Return (), s1\<lparr>calls := calls s1 @ [ME_removeMovable obj]\<rparr>)
         else (Throw TypeError, s1))"

text \<open>
  \<^verbatim>\<open>this.stopObject(obj)\<close>: no property \<^verbatim>\<open>stopObject\<close> is defined on the prototype (nor on
  \<^verbatim>\<open>PIXI.Container\<close>), so the call of the undefined value throws a TypeError.
\<close>

definition stopObject_call :: "oid \<Rightarrow> EngineView \<Rightarrow> unit outcome \<times> EngineView" where
  "stopObject_call obj s = (Throw TypeError, s)"

text \<open>\<^verbatim>\<open>this.moveEngine.prepareForMove(obj, path, speed)\<close>.\<close>

definition prepareForMove ::
  "externals \<Rightarrow> oid \<Rightarrow> pos list \<Rightarrow> int option \<Rightarrow> EngineView \<Rightarrow> unit outcome \<times> EngineView" where
  "prepareForMove X obj path speed s =
     (if moveEngine s then
        (Return (),
         s\<lparr>objects := (objects s)(obj := prepareForMove_sets X (objects s obj) path speed),
           calls := calls s @ [ME_prepareForMove obj path speed]\<rparr>)
      else (Throw TypeError, s))"

text \<open>
  The branch of \<^verbatim>\<open>moveObjThrough\<close> taken under \<^verbatim>\<open>config.instantObjectRelocation\<close>: the object
  is placed on the tile of \<^verbatim>\<open>path[0]\<close> (the assignments to \<^verbatim>\<open>obj.position\<close> are display
  only).
\<close>

definition moveObjThrough_instant ::
  "oid \<Rightarrow> pos list \<Rightarrow> EngineView \<Rightarrow> unit outcome \<times> EngineView" where
  "moveObjThrough_instant obj path s =
     (case nthItem path 0 of
        None \<Rightarrow> (Throw TypeError, s)
      | Some p0 \<Rightarrow>
          (case tileArray_get s p0 of
             Throw e \<Rightarrow> (Throw e, s)
           | Return None \<Rightarrow> (Throw TypeError, s)
           | Return (Some tile) \<Rightarrow>
               (case arrangeObjTransperancies obj (mapPos (objects s obj)) (tile_mapPos tile) s of
                  (Throw e, s1) \<Rightarrow> (Throw e, s1)
                | (Return u, s1) \<Rightarrow>
                    (case arrangeObjLocation obj (tile_mapPos tile) s1 of
                       (Throw e, s2) \<Rightarrow> (Throw e, s2)
                     | (Return u, s2) \<Rightarrow> arrangeDepthsFromLocation (tile_mapPos tile) s2))))"

text \<open>
  \<^verbatim>\<open>moveObjThrough\<close>, \<^verbatim>\<open>onObjMoveStepBegin\<close> and \<^verbatim>\<open>checkAndMoveObjectToLocation\<close> call each
  other: a step onto a filled cell searches a new path, and a found path begins a step.
  Nothing in the view bounds this recursion (it ends when the path finder returns a
  path whose next cell it reports open), so the functions take the depth of calls they
  may make; \<open>None\<close> means that this depth did not suffice.
\<close>

fun moveObjThrough ::
  "nat \<Rightarrow> externals \<Rightarrow> oid \<Rightarrow> pos list \<Rightarrow> int option \<Rightarrow> EngineView
     \<Rightarrow> (unit outcome \<times> EngineView) option"
and onObjMoveStepBegin ::
  "nat \<Rightarrow> externals \<Rightarrow> oid \<Rightarrow> pos \<Rightarrow> EngineView \<Rightarrow> (bool outcome \<times> EngineView) option"
and checkAndMoveObjectToLocation ::
  "nat \<Rightarrow> externals \<Rightarrow> oid \<Rightarrow> pos \<Rightarrow> int option \<Rightarrow> EngineView
     \<Rightarrow> (jsval outcome \<times> EngineView) option"
where
  "moveObjThrough 0 X obj path speed s = None"
| "moveObjThrough (Suc n) X obj path speed s =
     (case config s of
        None \<Rightarrow> Some (Throw TypeError, s)
      | Some cf \<Rightarrow>
          if instantObjectRelocation cf then Some (moveObjThrough_instant obj path s)
          else
            (case (if highlightPath cf \<and> currentControllable s = Some obj
                   then arrangePathHighlight (currentPath (objects s obj)) (Some path) s
                   else (Return (), s)) of
               (Throw e, s1) \<Rightarrow> Some (Throw e, s1)
             | (Return u, s1) \<Rightarrow>
                 (case (if currentTarget (objects s1 obj) \<noteq> None then stopObject_call obj s1
                        else (Return (), s1)) of
                    (Throw e, s2) \<Rightarrow> Some (Throw e, s2)
                  | (Return u, s2) \<Rightarrow>
                      (case prepareForMove X obj path speed s2 of
                         (Throw e, s3) \<Rightarrow> Some (Throw e, s3)
                       | (Return u, s3) \<Rightarrow>
                           (case currentPath (objects s3 obj) of
                              None \<Rightarrow> Some (Throw TypeError, s3)
                            | Some cp \<Rightarrow>
                                (let item = nthItem cp (currentPathStep (objects s3 obj));
                                     s4 = s3\<lparr>objects := (objects s3)(obj := (objects s3 obj)
                                             \<lparr>currentTargetTile := item\<rparr>)\<rparr>
                                 in case item of
                                      None \<Rightarrow> Some (Throw TypeError, s4)
                                    | Some it \<Rightarrow>
                                        (case onObjMoveStepBegin n X obj it s4 of
                                           None \<Rightarrow> None
                                         | Some (Throw e, s5) \<Rightarrow> Some (Throw e, s5)
                                         | Some (Return b, s5) \<Rightarrow> Some (Return (), s5))))))))"
| "onObjMoveStepBegin 0 X obj p s = None"
| "onObjMoveStepBegin (Suc n) X obj p s =
     (let dir = getDirBetween X (r (mapPos (objects s obj))) (c (mapPos (objects s obj))) (r p) (c p);
          s1 = s\<lparr>objects := (objects s)(obj := (objects s obj)\<lparr>currentDirection := dir\<rparr>),
                 calls := calls s @ [Obj_changeVisualToDirection obj dir True]\<rparr>
      in if \<not> pathFinding s1 then Some (Throw TypeError, s1)
         else
           (let filled = isCellFilled_returns X (calls s1) (c p) (r p);
                s2 = s1\<lparr>calls := calls s1 @ [PF_isCellFilled (c p) (r p) filled]\<rparr>
            in if \<not> moveEngine s2 then Some (Throw TypeError, s2)
               else if \<not> filled then
                 Some (Return True,
                       s2\<lparr>objects := (objects s2)(obj := setMoveParameters_sets X (objects s2 obj) p),
                          calls := calls s2 @ [ME_setMoveParameters obj p, ME_addMovable obj]\<rparr>)
               else
                 (let s3 = s2\<lparr>calls := calls s2 @ [ME_removeMovable obj]\<rparr>
                  in case currentPath (objects s3 obj) of
                       None \<Rightarrow> Some (Throw TypeError, s3)
                     | Some cp \<Rightarrow>
                         (case nthItem cp 0 of
                            None \<Rightarrow> Some (Throw TypeError, s3)
                          | Some goal \<Rightarrow>
                              (case checkAndMoveObjectToLocation n X obj goal None s3 of
                                 None \<Rightarrow> None
                               | Some (Throw e, s4) \<Rightarrow> Some (Throw e, s4)
                               | Some (Return v, s4) \<Rightarrow> Some (Return False, s4))))))"
| "checkAndMoveObjectToLocation 0 X obj p speed s = None"
| "checkAndMoveObjectToLocation (Suc n) X obj p speed s =
     (case getPath X (mapPos (objects s obj)) p s of
        (Throw e, s1) \<Rightarrow> Some (Throw e, s1)
      | (Return None, s1) \<Rightarrow> Some (Return (JBool False), s1)
      | (Return (Some path), s1) \<Rightarrow>
          (case moveObjThrough n X obj path speed s1 of
             None \<Rightarrow> None
           | Some (Throw e, s2) \<Rightarrow> Some (Throw e, s2)
           | Some (Return u, s2) \<Rightarrow> Some (Return (JNumber (int (length path))), s2)))"

text \<open>
  \<^verbatim>\<open>onObjMoveStepEnd(obj)\<close>. The step counter goes down by one and the path has ended when
  it is below zero. Otherwise the view either searches a path to the location of
  \<^verbatim>\<open>obj.currentPath[0]\<close> again (\<^verbatim>\<open>config.checkPathOnEachTile\<close>), or removes the last item of
  \<^verbatim>\<open>obj.currentPath\<close> and moves on through what is left.
\<close>

definition onObjMoveStepEnd ::
  "nat \<Rightarrow> externals \<Rightarrow> oid \<Rightarrow> EngineView \<Rightarrow> (unit outcome \<times> EngineView) option" where
  "onObjMoveStepEnd n X obj s =
     (let s1 = s\<lparr>objects := (objects s)(obj := (objects s obj)
                 \<lparr>currentPathStep := currentPathStep (objects s obj) - 1,
                  currentTarget := None, currentTargetTile := None\<rparr>)\<rparr>;
          pathEnded = (0 > currentPathStep (objects s1 obj))
      in if \<not> moveEngine s1 then Some (Throw TypeError, s1)
         else
           (let s2 = s1\<lparr>calls := calls s1 @ [ME_removeMovable obj]\<rparr>
            in case
                 (if \<not> pathEnded then
                    (case config s2 of
                       None \<Rightarrow> Some (Throw TypeError, s2)
                     | Some cf \<Rightarrow>
                         if checkPathOnEachTile cf then
                           (case currentPath (objects s2 obj) of
                              None \<Rightarrow> Some (Throw TypeError, s2)
                            | Some cp \<Rightarrow>
                                (case nthItem cp 0 of
                                   None \<Rightarrow> Some (Throw TypeError, s2)
                                 | Some goal \<Rightarrow>
                                     (case checkAndMoveObjectToLocation n X obj goal None s2 of
                                        None \<Rightarrow> None
                                      | Some (Throw e, s3) \<Rightarrow> Some (Throw e, s3)
                                      | Some (Return v, s3) \<Rightarrow> Some (Return (), s3))))
                         else
                           (case currentPath (objects s2 obj) of
                              None \<Rightarrow> Some (Throw TypeError, s2)
                            | Some cp \<Rightarrow>
                                (let cp' = splice1 cp (int (length cp) - 1);
                                     s3 = s2\<lparr>objects := (objects s2)(obj := (objects s2 obj)
                                             \<lparr>currentPath := Some cp'\<rparr>)\<rparr>
                                 in moveObjThrough n X obj cp' None s3)))
                  else
                    Some (Return (),
                          s2\<lparr>calls := calls s2 @
                             [Obj_changeVisualToDirection obj (currentDirection (objects s2 obj)) False]\<rparr>))
               of
                 None \<Rightarrow> None
               | Some (Throw e, s4) \<Rightarrow> Some (Throw e, s4)
               | Some (Return u, s4) \<Rightarrow>
                   (case (if currentControllable s4 = Some obj then
                            (case tileArray_get s4 (mapPos (objects s4 obj)) of
                               Throw e \<Rightarrow> (Throw e, s4)
                             | Return None \<Rightarrow> (Throw TypeError, s4)
                             | Return (Some tile) \<Rightarrow>
                                 (case config s4 of
                                    None \<Rightarrow> (Throw TypeError, s4)
                                  | Some cf \<Rightarrow>
                                      (Return (),
                                       s4\<lparr>calls := calls s4 @
                                          [Tile_setHighlighted (mapPos (objects s4 obj)) False
                                             (Some (\<not> tileHighlightAnimated cf))]\<rparr>)))
                          else (Return (), s4)) of
                      (Throw e, s5) \<Rightarrow> Some (Throw e, s5)
                    | (Return u, s5) \<Rightarrow>
                        if pathEnded then
                          (case config s5 of
                             None \<Rightarrow> Some (Throw TypeError, s5)
                           | Some cf \<Rightarrow>
                               if objectReachedDestinationCallback cf
                               then Some (Return (),
                                          s5\<lparr>calls := calls s5 @ [Callback_objectReachedDestination obj]\<rparr>)
                               else Some (Return (), s5))
                        else Some (Return (), s5))))"


text \<open>
  The loop of \<^verbatim>\<open>moveCurrentControllableToObj\<close> over the cells returned by
  \<^verbatim>\<open>getAdjacentOpenCells\<close>, with the shortest path found so far. It is left by the
  \<^verbatim>\<open>return true\<close> of the cell the controllable stands on, or at the end of the array.
\<close>

datatype loop_exit = EarlyReturn bool | LoopDone "pos list option"

text \<open>
  The body for the cell the controllable stands on. The call of \<^verbatim>\<open>this.stopObject\<close> comes
  second; the statements after it are the source's.
\<close>

definition alreadyNextToObject ::
  "nat \<Rightarrow> externals \<Rightarrow> oid \<Rightarrow> TileView \<Rightarrow> EngineView \<Rightarrow> (bool outcome \<times> EngineView) option" where
  "alreadyNextToObject n X cc tile s =
     (case arrangePathHighlight (currentPath (objects s cc)) None s of
        (Throw e, s1) \<Rightarrow> Some (Throw e, s1)
      | (Return u, s1) \<Rightarrow>
          (case stopObject_call cc s1 of
             (Throw e, s2) \<Rightarrow> Some (Throw e, s2)
           | (Return u, s2) \<Rightarrow>
               (case config s2 of
                  None \<Rightarrow> Some (Throw TypeError, s2)
                | Some cf \<Rightarrow>
                    (let tempFlagHolder = instantObjectRelocation cf;
                         s3 = s2\<lparr>config := Some (cf\<lparr>instantObjectRelocation := True\<rparr>)\<rparr>
                     in case moveObjThrough n X cc [tile_mapPos tile] None s3 of
                          None \<Rightarrow> None
                        | Some (Throw e, s4) \<Rightarrow> Some (Throw e, s4)
                        | Some (Return u, s4) \<Rightarrow>
                            (case config s4 of
                               None \<Rightarrow> Some (Throw TypeError, s4)
                             | Some cf4 \<Rightarrow>
                                 (let s5 = s4\<lparr>config := Some (cf4\<lparr>instantObjectRelocation := tempFlagHolder\<rparr>),
                                               calls := calls s4 @
                                                 [Obj_changeVisualToDirection cc
                                                    (currentDirection (objects s4 cc)) False]\<rparr>
                                  in if objectReachedDestinationCallback cf4
                                     then Some (Return True,
                                                s5\<lparr>calls := calls s5 @ [Callback_objectReachedDestination cc]\<rparr>)
                                     else Some (Return True, s5)))))))"

fun adjacentCells_loop ::
  "nat \<Rightarrow> externals \<Rightarrow> pos list \<Rightarrow> int \<Rightarrow> pos list option \<Rightarrow> EngineView
     \<Rightarrow> (loop_exit outcome \<times> EngineView) option" where
  "adjacentCells_loop n X [] minLength minPath s = Some (Return (LoopDone minPath), s)"
| "adjacentCells_loop n X (cell # cells) minLength minPath s =
     (case tileArray_get s cell of
        Throw e \<Rightarrow> Some (Throw e, s)
      | Return None \<Rightarrow> adjacentCells_loop n X cells minLength minPath s
      | Return (Some tile) \<Rightarrow>
          (case currentControllable s of
             None \<Rightarrow> Some (Throw TypeError, s)
           | Some cc \<Rightarrow>
               if c (tile_mapPos tile) = c (mapPos (objects s cc)) \<and>
                  r (tile_mapPos tile) = r (mapPos (objects s cc))
               then
                 (case alreadyNextToObject n X cc tile s of
                    None \<Rightarrow> None
                  | Some (Throw e, s1) \<Rightarrow> Some (Throw e, s1)
                  | Some (Return b, s1) \<Rightarrow> Some (Return (EarlyReturn b), s1))
               else
                 (case getPath X (mapPos (objects s cc)) (tile_mapPos tile) s of
                    (Throw e, s1) \<Rightarrow> Some (Throw e, s1)
                  | (Return None, s1) \<Rightarrow> adjacentCells_loop n X cells minLength minPath s1
                  | (Return (Some path), s1) \<Rightarrow>
                      if int (length path) < minLength
                      then adjacentCells_loop n X cells (int (length path)) (Some path) s1
                      else adjacentCells_loop n X cells minLength minPath s1)))"

text \<open>\<^verbatim>\<open>moveCurrentControllableToObj(obj, speed)\<close>.\<close>

definition moveCurrentControllableToObj ::
  "nat \<Rightarrow> externals \<Rightarrow> oid \<Rightarrow> int option \<Rightarrow> EngineView \<Rightarrow> (bool outcome \<times> EngineView) option" where
  "moveCurrentControllableToObj n X obj speed s =
     (case currentControllable s of
        None \<Rightarrow> Some (Throw (Error ''TRAVISO: currentControllable is not defined!''), s)
      | Some cc0 \<Rightarrow>
          (case (case currentInteractionOffset (objects s obj) of
                   None \<Rightarrow> Some (Return False, s)
                 | Some off \<Rightarrow>
                     (case checkAndMoveObjectToLocation n X cc0
                             \<lparr>c = c (mapPos (objects s obj)) + c off,
                              r = r (mapPos (objects s obj)) + r off\<rparr> speed s of
                        None \<Rightarrow> None
                      | Some (Throw e, s1) \<Rightarrow> Some (Throw e, s1)
                      | Some (Return v, s1) \<Rightarrow> Some (Return (truthy v), s1))) of
             None \<Rightarrow> None
           | Some (Throw e, s1) \<Rightarrow> Some (Throw e, s1)
           | Some (Return True, s1) \<Rightarrow> Some (Return True, s1)
           | Some (Return False, s1) \<Rightarrow>
               if \<not> pathFinding s1 then Some (Throw TypeError, s1)
               else
                 (let target = objects s1 obj;
                      cellArray = getAdjacentOpenCells_returns X (calls s1)
                                    (c (mapPos target)) (r (mapPos target))
                                    (columnSpan target) (rowSpan target);
                      s2 = s1\<lparr>calls := calls s1 @
                             [PF_getAdjacentOpenCells (c (mapPos target)) (r (mapPos target))
                                (columnSpan target) (rowSpan target) cellArray]\<rparr>
                  in case adjacentCells_loop n X cellArray 3000 None s2 of
                       None \<Rightarrow> None
                     | Some (Throw e, s3) \<Rightarrow> Some (Throw e, s3)
                     | Some (Return (EarlyReturn b), s3) \<Rightarrow> Some (Return b, s3)
                     | Some (Return (LoopDone None), s3) \<Rightarrow> Some (Return False, s3)
                     | Some (Return (LoopDone (Some minPath)), s3) \<Rightarrow>
                         (case currentControllable s3 of
                            None \<Rightarrow> Some (Throw TypeError, s3)
                          | Some cc \<Rightarrow>
                              (case moveObjThrough n X cc minPath speed s3 of
                                 None \<Rightarrow> None
                               | Some (Throw e, s4) \<Rightarrow> Some (Throw e, s4)
                               | Some (Return u, s4) \<Rightarrow> Some (Return True, s4))))))"


section \<open>Building and destroying the map\<close>

text \<open>\<^verbatim>\<open>row[j]\<close> of a row of map data: \<^verbatim>\<open>undefined\<close> (falsy) beyond its end.\<close>

definition entryAt :: "nat option list \<Rightarrow> nat \<Rightarrow> nat option" where
  "entryAt row j = (if j < length row then row ! j else None)"

text \<open>
  The body of the tile loops of \<^verbatim>\<open>createMap\<close> at row \<open>i\<close> and column \<open>j\<close>: a truthy entry
  of the ground map becomes a tile, and \<^verbatim>\<open>setCell(j, i, 0)\<close> is called when the tile is not
  movable onto or when there is no tile.
\<close>

definition createMap_tile ::
  "externals \<Rightarrow> nat option list list \<Rightarrow> nat \<Rightarrow> nat \<Rightarrow> EngineView \<Rightarrow> unit outcome \<times> EngineView" where
  "createMap_tile X g i j s =
     (let p = \<lparr>c = int j, r = int i\<rparr>;
          s1 = tileArray_set p None s
      in case entryAt (g ! i) j of
           Some ty \<Rightarrow>
             (let tile = \<lparr>tile_mapPos = p, tile_isMovableTo = newTileView_isMovableTo X ty\<rparr>;
                  s2 = tileArray_set p (Some tile) s1
              in if \<not> tile_isMovableTo tile then setCell (int j) (int i) 0 s2 else (Return (), s2))
         | None \<Rightarrow> setCell (int j) (int i) 0 s1)"

text \<open>
  The body of the object loops: a truthy entry of the object map becomes a new
  map-object at that location, referenced from the cells of its footprint, and the
  current controllable when the location is the initial one. The pixel position of the
  sprite and \<^verbatim>\<open>objContainer.addChild(obj)\<close> (like \<^verbatim>\<open>groundContainer.addChild(tile)\<close> in the
  tile loops) belong to the display: they reach neither table and not the path finder,
  and the call log of \<^verbatim>\<open>createMap\<close> leaves them out.
\<close>

definition createMap_object ::
  "externals \<Rightarrow> MapData \<Rightarrow> nat \<Rightarrow> nat \<Rightarrow> EngineView \<Rightarrow> unit outcome \<times> EngineView" where
  "createMap_object X md i j s =
     (let p = \<lparr>c = int j, r = int i\<rparr>;
          s1 = objArray_set p None s
      in if i < length (objectsMapData md) then
           (case entryAt (objectsMapData md ! i) j of
              None \<Rightarrow> (Return (), s1)
            | Some ty \<Rightarrow>
                (let obj = nextOid s1;
                     s2 = s1\<lparr>objects := (objects s1)(obj := (newObjectView X ty)\<lparr>mapPos := p\<rparr>),
                            nextOid := obj + 1\<rparr>
                 in case addObjRefToLocation obj p s2 of
                      (Throw e, s3) \<Rightarrow> (Throw e, s3)
                    | (Return u, s3) \<Rightarrow>
                        (Return (),
                         if initialControllableLocation md = Some (int j, int i)
                         then s3\<lparr>currentControllable := Some obj\<rparr> else s3)))
         else (Throw TypeError, s1))"

text \<open>
  \<^verbatim>\<open>createMap\<close>, up to the end of the object loops: the sizes, the two tables filled with
  \<^verbatim>\<open>null\<close>, the new path finder, the tiles and the objects. The loops run over the rows
  \<open>0 \<le> i < mapSizeR\<close> and, within a row, over the columns from \<open>mapSizeC - 1\<close> down to 0
  (no body writes a size). What follows in the source places display objects and the
  camera.
\<close>

definition createMap :: "externals \<Rightarrow> EngineView \<Rightarrow> unit outcome \<times> EngineView" where
  "createMap X s =
     (case config s of
        None \<Rightarrow> (Throw TypeError, s)
      | Some cf \<Rightarrow>
          (case mapData s of
             None \<Rightarrow> (Throw TypeError, s)
           | Some md \<Rightarrow>
               (case groundMapData md of
                  [] \<Rightarrow> (Throw TypeError, s\<lparr>mapSizeR := 0\<rparr>)
                | row0 # rest \<Rightarrow>
                    (let nR = length (groundMapData md);
                         nC = length row0;
                         s1 = s\<lparr>mapSizeR := int nR, mapSizeC := int nC,
                                tileArray := Some (replicate nR (\<lambda>j. None)),
                                objArray := Some (replicate nR (\<lambda>j. None)),
                                pathFinding := True,
                                calls := calls s @
                                  [PF_new (int nC) (int nR) (pathFindingDiagonal cf) (pathFindingClosest cf)]\<rparr>
                     in case forEach (\<lambda>i. forEach (createMap_tile X (groundMapData md) i) (rev [0 ..< nC]))
                               [0 ..< nR] s1 of
                          (Throw e, s2) \<Rightarrow> (Throw e, s2)
                        | (Return u, s2) \<Rightarrow>
                            forEach (\<lambda>i. forEach (createMap_object X md i) (rev [0 ..< nC]))
                              [0 ..< nR] s2))))"

text \<open>
  The body of the loops of \<^verbatim>\<open>destroy\<close>: the tile and the objects of a cell are destroyed
  and both entries set to \<^verbatim>\<open>null\<close>.
\<close>

definition destroy_cell :: "nat \<Rightarrow> nat \<Rightarrow> EngineView \<Rightarrow> unit outcome \<times> EngineView" where
  "destroy_cell i j s =
     (let p = \<lparr>c = int j, r = int i\<rparr>
      in case tileArray_get s p of
           Throw e \<Rightarrow> (Throw e, s)
         | Return item \<Rightarrow>
             (let s1 = (case item of None \<Rightarrow> s
                        | Some tile \<Rightarrow> s\<lparr>calls := calls s @ [Tile_destroy p]\<rparr>);
                  s2 = tileArray_set p None s1
              in case objArray_get s2 p of
                   Throw e \<Rightarrow> (Throw e, s2)
                 | Return None \<Rightarrow> (Return (), objArray_set p None s2)
                 | Return (Some a) \<Rightarrow>
                     (Return (),
                      objArray_set p None (s2\<lparr>calls := calls s2 @ map Obj_destroy a\<rparr>))))"

text \<open>
  \<^verbatim>\<open>destroy\<close>. \<^verbatim>\<open>disableInteraction\<close> and the display containers are not part of the state.
\<close>

definition destroy :: "EngineView \<Rightarrow> unit outcome \<times> EngineView" where
  "destroy s =
     (if \<not> moveEngine s then (Throw TypeError, s)
      else
        (let s1 = s\<lparr>moveEngine := False, calls := calls s @ [ME_destroy]\<rparr>
         in case forEach (\<lambda>i. forEach (destroy_cell i) (rev [0 ..< nat (mapSizeC s1)]))
                   [0 ..< nat (mapSizeR s1)] s1 of
              (Throw e, s2) \<Rightarrow> (Throw e, s2)
            | (Return u, s2) \<Rightarrow>
                if \<not> pathFinding s2 then (Throw TypeError, s2)
                else
                  (let s3 = s2\<lparr>pathFinding := False, calls := calls s2 @ [PF_destroy],
                                currentControllable := None, tileArray := None, objArray := None,
                                config := None\<rparr>
                   in case mapData s3 of
                        None \<Rightarrow> (Throw TypeError, s3)
                      | Some md \<Rightarrow> (Return (), s3\<lparr>mapData := None\<rparr>))))"

section \<open>The footprint of an object, as the specification words it\<close>

text \<open>
  The cells of the rectangle \<open>[col, col + columnSpan) \<times> [row - rowSpan + 1, row]\<close>, columns
  from left to right and, within a column, rows from \<open>row\<close> upward.
\<close>

definition footprint :: "int \<Rightarrow> int \<Rightarrow> pos \<Rightarrow> pos list" where
  "footprint cs rs p =
     concat (map (\<lambda>k. map (\<lambda>m. \<lparr>c = k, r = m\<rparr>) (rev [r p - rs + 1 .. r p]))
                 [c p .. c p + cs - 1])"

text \<open>One column of a footprint: the rows from \<open>hi\<close> down to \<open>lo\<close>.\<close>

definition column_cells :: "int \<Rightarrow> int \<Rightarrow> int \<Rightarrow> pos list" where
  "column_cells k lo hi = map (\<lambda>m. \<lparr>c = k, r = m\<rparr>) (rev [lo .. hi])"

text \<open>No list of references holds an object twice.\<close>

definition noDuplicateRefs :: "EngineView \<Rightarrow> bool" where
  "noDuplicateRefs s =
     (case objArray s of
        None \<Rightarrow> True
      | Some rows \<Rightarrow> \<forall>i < length rows. \<forall>k a. (rows ! i) k = Some a \<longrightarrow> distinct a)"

text \<open>
  The same of the state a movement method leaves, when it returns or throws within the
  depth of calls it was given.
\<close>

definition keepsNoDuplicateRefs :: "('a outcome \<times> EngineView) option \<Rightarrow> bool" where
  "keepsNoDuplicateRefs m = (case m of None \<Rightarrow> True | Some (res, s') \<Rightarrow> noDuplicateRefs s')"

text \<open>
  The numbers of the view are IEEE doubles. The embedding computes on integers, which is
  what the source computes as long as the operands and the results are safe integers
  (of absolute value below \<open>2 ^ 53\<close>): there the sums, differences, increments and
  decrements of the loops are exact.
\<close>

definition safeInteger :: "int \<Rightarrow> bool" where
  "safeInteger n = (- (2 ^ 53) < n \<and> n < 2 ^ 53)"

text \<open>
  The location, the spans of the object and the two loop bounds
  \<^verbatim>\<open>pos.c + obj.columnSpan\<close> and \<^verbatim>\<open>pos.r - obj.rowSpan\<close> are safe integers.
\<close>

definition withinSafeIntegers :: "ObjectView \<Rightarrow> pos \<Rightarrow> bool" where
  "withinSafeIntegers ob p =
     (safeInteger (c p) \<and> safeInteger (r p) \<and>
      safeInteger (columnSpan ob) \<and> safeInteger (rowSpan ob) \<and>
      safeInteger (c p + columnSpan ob) \<and> safeInteger (r p - rowSpan ob))"

text \<open>
  Every cell of a list lies in a row of the object table, so that reading the cell does
  not throw.
\<close>

definition rowsInGrid :: "EngineView \<Rightarrow> pos list \<Rightarrow> bool" where
  "rowsInGrid s qs =
     (case objArray s of
        None \<Rightarrow> False
      | Some rows \<Rightarrow> list_all (\<lambda>q. 0 \<le> r q \<and> r q < int (length rows)) qs)"

text \<open>The calls that write the static layer.\<close>

definition isSetCell :: "call \<Rightarrow> bool" where
  "isSetCell x = (case x of PF_setCell a b w \<Rightarrow> True | _ \<Rightarrow> False)"

text \<open>
  A cell is blocked by the terrain when its entry in the ground map is falsy or the tile
  built from the entry is not movable onto.
\<close>

definition staticBlocked :: "externals \<Rightarrow> nat option list list \<Rightarrow> nat \<Rightarrow> nat \<Rightarrow> bool" where
  "staticBlocked X g i j =
     (case entryAt (g ! i) j of
        None \<Rightarrow> True
      | Some ty \<Rightarrow> \<not> newTileView_isMovableTo X ty)"

section \<open>The calls of a step\<close>

text \<open>
  The calls that matter for a step of a moving object: the question whether a cell is
  filled, and the parameters of the move onto a cell.
\<close>

definition isStepCall :: "call \<Rightarrow> bool" where
  "isStepCall x =
     (case x of PF_isCellFilled a b f \<Rightarrow> True | ME_setMoveParameters ob p \<Rightarrow> True | _ \<Rightarrow> False)"

text \<open>
  Every \<^verbatim>\<open>setMoveParameters(obj, pos)\<close> of a list comes right after an
  \<^verbatim>\<open>isCellFilled(pos.c, pos.r)\<close> that answered false; \<open>prev\<close> is the call before the list.
\<close>

fun checkedSteps :: "call option \<Rightarrow> call list \<Rightarrow> bool" where
  "checkedSteps prev [] = True"
| "checkedSteps prev (x # xs) =
     ((case x of
         ME_setMoveParameters ob p \<Rightarrow> prev = Some (PF_isCellFilled (c p) (r p) False)
       | _ \<Rightarrow> True) \<and>
      checkedSteps (Some x) xs)"

text \<open>
  The same of a call log, in which only the two kinds of call count: the last question
  before a step was about the cell of the step, and the answer was that it is open.
\<close>

definition stepsOntoOpenCells :: "call list \<Rightarrow> bool" where
  "stepsOntoOpenCells cs = checkedSteps None (filter isStepCall cs)"

text \<open>
  What a movement method adds to the call log, when it returns or throws within the
  depth of calls it was given, has this property.
\<close>

definition addsCheckedSteps :: "EngineView \<Rightarrow> ('a outcome \<times> EngineView) option \<Rightarrow> bool" where
  "addsCheckedSteps s m =
     (case m of
        None \<Rightarrow> True
      | Some (res, s') \<Rightarrow>
          take (length (calls s)) (calls s') = calls s \<and>
          stepsOntoOpenCells (drop (length (calls s)) (calls s')))"

section \<open>Example states\<close>

definition demo_object :: "bool \<Rightarrow> int \<Rightarrow> int \<Rightarrow> pos \<Rightarrow> ObjectView" where
  "demo_object mv cs rs p =
     \<lparr>isMovableTo = mv, columnSpan = cs, rowSpan = rs, mapPos = p, currentPath = None,
      currentPathStep = 0, currentTarget = None, currentTargetTile = None,
      currentDirection = 0, currentInteractionOffset = None,
      isFloorObject = False, noTransparency = False, alpha = 100\<rparr>"

definition demo_config :: Config where
  "demo_config =
     \<lparr>instantObjectRelocation = False, highlightPath = False, changeTransperancies = False,
      checkPathOnEachTile = True, tileHighlightAnimated = False,
      objectReachedDestinationCallback = False,
      pathFindingDiagonal = False, pathFindingClosest = False\<rparr>"

text \<open>
  A map of three rows and three columns with a tile on every cell. Object 1 (a wall,
  not movable onto) and object 2 (a rug, movable onto) share the cell \<open>(c = 1, r = 1)\<close>;
  object 3 (the character) stands on \<open>(c = 0, r = 2)\<close>.
\<close>

definition demo_map :: MapData where
  "demo_map =
     \<lparr>groundMapData = [[Some 1, Some 1, Some 1], [Some 1, Some 2, None], [Some 1, Some 1, Some 1]],
      objectsMapData = [[None, None, None], [None, Some 1, None], [Some 3, None, None]],
      initialControllableLocation = Some (0, 2)\<rparr>"

definition demo_view :: EngineView where
  "demo_view =
     \<lparr>mapData = Some demo_map, nextOid = 5, mapSizeR = 3, mapSizeC = 3,
      tileArray = Some (map (\<lambda>i. (\<lambda>j. if 0 \<le> j \<and> j < 3
                     then Some \<lparr>tile_mapPos = \<lparr>c = j, r = i\<rparr>, tile_isMovableTo = True\<rparr>
                     else None)) [0, 1, 2]),
      objArray = Some [(\<lambda>j. None), (\<lambda>j. None)(1 := Some [1, 2]), (\<lambda>j. None)(0 := Some [3])],
      pathFinding = True, moveEngine = True,
      currentControllable = Some 3,
      config = Some demo_config,
      objects = (\<lambda>i. demo_object True 1 1 \<lparr>c = 0, r = 0\<rparr>)
                  (1 := demo_object False 1 1 \<lparr>c = 1, r = 1\<rparr>,
                   2 := demo_object True 1 1 \<lparr>c = 1, r = 1\<rparr>,
                   3 := demo_object False 1 1 \<lparr>c = 0, r = 2\<rparr>,
                   4 := demo_object False 2 2 \<lparr>c = 1, r = 1\<rparr>),
      calls = []\<rparr>"


text \<open>The view before \<^verbatim>\<open>createMap\<close>: the map data is loaded and the move engine exists.\<close>

definition demo_fresh :: EngineView where
  "demo_fresh =
     \<lparr>mapData = Some demo_map, nextOid = 0, mapSizeR = 0, mapSizeC = 0,
      tileArray = None, objArray = None, pathFinding = False, moveEngine = True,
      currentControllable = None, config = Some demo_config,
      objects = (\<lambda>i. demo_object True 1 1 \<lparr>c = 0, r = 0\<rparr>), calls = []\<rparr>"

text \<open>
  Collaborators for the examples: the cell \<open>(c = 1, r = 1)\<close> is filled and unreachable;
  a path to any other cell is that cell alone, and the path from a cell to itself is
  empty. The move engine stores the path and starts at its last item. Tiles of type 2 and
  objects of type 1 are not movable onto.
\<close>

definition demo_externals :: externals where
  "demo_externals =
     \<lparr>solve_returns = (\<lambda>cs fc fr tc tr.
          if tc = 1 \<and> tr = 1 then None
          else if fc = tc \<and> fr = tr then Some []
          else Some [\<lparr>c = tc, r = tr\<rparr>]),
      isCellFilled_returns = (\<lambda>cs a b. a = 1 \<and> b = 1),
      getAdjacentOpenCells_returns = (\<lambda>cs a b cs' rs'.
          [\<lparr>c = a - 1, r = b\<rparr>, \<lparr>c = a, r = b + 1\<rparr>]),
      prepareForMove_sets = (\<lambda>ob path speed.
          ob\<lparr>currentPath := Some path, currentPathStep := int (length path) - 1\<rparr>),
      setMoveParameters_sets = (\<lambda>ob p. ob\<lparr>currentTarget := Some (c p, r p)\<rparr>),
      getDirBetween = (\<lambda>r1 c1 r2 c2. 0),
      newTileView_isMovableTo = (\<lambda>ty. ty \<noteq> 2),
      newObjectView = (\<lambda>ty. demo_object (ty \<noteq> 1) 1 1 \<lparr>c = 0, r = 0\<rparr>)\<rparr>"

section \<open>Properties\<close>

subsection \<open>Array primitives and frame lemmas\<close>

lemma indexOf_neg_iff: "indexOf xs x < 0 \<longleftrightarrow> x \<notin> set xs"
  by (induction xs) (auto simp: Let_def)

lemma indexOf_range: "x \<in> set xs \<Longrightarrow> 0 \<le> indexOf xs x \<and> indexOf xs x < int (length xs)"
  by (induction xs) (auto simp: Let_def)

lemma splice1_indexOf: "x \<in> set xs \<Longrightarrow> splice1 xs (indexOf xs x) = remove1 x xs"
proof (induction xs)
  case Nil
  then show ?case by simp
next
  case (Cons y ys)
  show ?case
  proof (cases "y = x")
    case True
    then show ?thesis by (simp add: splice1_def)
  next
    case False
    with Cons.prems have xin: "x \<in> set ys" by simp
    from indexOf_range[OF xin] have rng: "0 \<le> indexOf ys x" "indexOf ys x < int (length ys)" by auto
    from Cons.IH[OF xin] rng have "take (nat (indexOf ys x)) ys @ drop (nat (indexOf ys x) + 1) ys = remove1 x ys"
      by (simp add: splice1_def Let_def min_def)
    with False rng xin show ?thesis
      by (simp add: splice1_def Let_def min_def indexOf_neg_iff nat_add_distrib)
  qed
qed

lemma objArray_set_fields [simp]:
  "objects (objArray_set p v s) = objects s"
  "calls (objArray_set p v s) = calls s"
  "pathFinding (objArray_set p v s) = pathFinding s"
  "moveEngine (objArray_set p v s) = moveEngine s"
  "config (objArray_set p v s) = config s"
  "mapData (objArray_set p v s) = mapData s"
  "nextOid (objArray_set p v s) = nextOid s"
  "tileArray (objArray_set p v s) = tileArray s"
  "currentControllable (objArray_set p v s) = currentControllable s"
  "mapSizeR (objArray_set p v s) = mapSizeR s"
  "mapSizeC (objArray_set p v s) = mapSizeC s"
  by (auto simp: objArray_set_def split: option.splits)

lemma removeObjRef_scan_result:
  "pathFinding s \<Longrightarrow> i < length a \<Longrightarrow> l = length a \<Longrightarrow>
   removeObjRef_scan a l p i s =
     (Return (), s\<lparr>calls := calls s @
        [PF_setDynamicCell (c p) (r p) (if \<forall>x\<in>set (drop i a). isMovableTo (objects s x) then 1 else 0)]\<rparr>)"
proof (induction a l p i s rule: removeObjRef_scan.induct)
  case (1 a l p i s)
  have dr: "drop i a = a ! i # drop (Suc i) a"
    using "1.prems" by (simp add: Cons_nth_drop_Suc)
  show ?case
  proof (cases "isMovableTo (objects s (a ! i))")
    case False
    then show ?thesis using "1.prems" dr
      by (subst removeObjRef_scan.simps) (auto simp: setDynamicCell_def)
  next
    case True
    show ?thesis
    proof (cases "Suc i = length a")
      case True
      with \<open>isMovableTo (objects s (a ! i))\<close> "1.prems" dr show ?thesis
        apply (subst removeObjRef_scan.simps)
        apply (subst removeObjRef_scan.simps)
        by (auto simp: setDynamicCell_def)
    next
      case False
      with "1.prems" have lt: "Suc i < length a" by simp
      have "removeObjRef_scan a l p (i + 1) s = (Return (), s\<lparr>calls := calls s @
        [PF_setDynamicCell (c p) (r p) (if \<forall>x\<in>set (drop (i + 1) a). isMovableTo (objects s x) then 1 else 0)]\<rparr>)"
        using "1.IH"(2) "1.prems" True False lt by auto
      with True False "1.prems" dr show ?thesis
        by (subst removeObjRef_scan.simps) auto
    qed
  qed
qed


lemma setDynamicCell_fields [simp]:
  "objects (snd (setDynamicCell a b w s)) = objects s"
  "objArray (snd (setDynamicCell a b w s)) = objArray s"
  "pathFinding (snd (setDynamicCell a b w s)) = pathFinding s"
  by (auto simp: setDynamicCell_def)

lemma setDynamicCell_ok:
  "pathFinding s \<Longrightarrow> setDynamicCell a b w s = (Return (), s\<lparr>calls := calls s @ [PF_setDynamicCell a b w]\<rparr>)"
  by (simp add: setDynamicCell_def)

lemma add_single_calls:
  assumes "pathFinding s" and "objArray_get s p = Return cell"
  shows "fst (addObjRefToSingleLocation obj p s) = Return () \<and>
         calls (snd (addObjRefToSingleLocation obj p s)) =
           calls s @ (if isMovableTo (objects s obj) then [] else [PF_setDynamicCell (c p) (r p) 0])"
  using assms by (auto simp: addObjRefToSingleLocation_def Let_def setDynamicCell_def)

lemma remove_single_calls:
  assumes "pathFinding s" and "objArray_get s p = Return (Some a)"
  shows "fst (removeObjRefFromSingleLocation obj p s) = Return () \<and>
         calls (snd (removeObjRefFromSingleLocation obj p s)) =
           calls s @ [PF_setDynamicCell (c p) (r p)
                        (if \<forall>x\<in>set (remove1 obj a). isMovableTo (objects s x) then 1 else 0)]"
proof -
  define a' where "a' = (if indexOf a obj > - 1 then splice1 a (indexOf a obj) else a)"
  have a': "a' = remove1 obj a"
  proof (cases "obj \<in> set a")
    case True
    with indexOf_range[OF True] show ?thesis by (simp add: a'_def splice1_indexOf)
  next
    case False
    then have "indexOf a obj < 0" by (simp add: indexOf_neg_iff)
    with False show ?thesis by (simp add: a'_def remove1_idem)
  qed
  define s1 where "s1 = (if indexOf a obj > - 1 then objArray_set p (Some a') s else s)"
  have s1: "pathFinding s1" "calls s1 = calls s" "objects s1 = objects s"
    using assms(1) by (auto simp: s1_def)
  have eq: "removeObjRefFromSingleLocation obj p s =
      (if length a' = 0 then
         (case setDynamicCell (c p) (r p) 1 s1 of
            (Throw e, s') \<Rightarrow> (Throw e, s')
          | (Return u, s') \<Rightarrow> (Return (), objArray_set p None s'))
       else removeObjRef_scan a' (length a') p 0 s1)"
    using assms(2) by (simp add: removeObjRefFromSingleLocation_def Let_def a'_def s1_def)
  show ?thesis
  proof (cases "a' = []")
    case True
    with eq s1 a' show ?thesis
      by (simp add: setDynamicCell_def)
  next
    case False
    then have "0 < length a'" by simp
    from removeObjRef_scan_result[OF s1(1) this refl, of p] s1 False a' eq show ?thesis
      by simp
  qed
qed


lemma removeObjRef_scan_objects [simp]:
  "objects (snd (removeObjRef_scan a l q i t)) = objects t"
proof (induction a l q i t rule: removeObjRef_scan.induct)
  case (1 a l q i t)
  then show ?case
    by (subst removeObjRef_scan.simps)
       (auto simp: setDynamicCell_def split: prod.splits outcome.splits)
qed

lemma removeObjRef_scan_objArray [simp]:
  "objArray (snd (removeObjRef_scan a l q i t)) = objArray t"
proof (induction a l q i t rule: removeObjRef_scan.induct)
  case (1 a l q i t)
  then show ?case
    by (subst removeObjRef_scan.simps)
       (auto simp: setDynamicCell_def split: prod.splits outcome.splits)
qed

lemma add_single_objects [simp]:
  "objects (snd (addObjRefToSingleLocation obj q t)) = objects t"
  by (auto simp: addObjRefToSingleLocation_def setDynamicCell_def Let_def
      split: outcome.splits option.splits)

lemma remove_single_objects [simp]:
  "objects (snd (removeObjRefFromSingleLocation obj q t)) = objects t"
  by (auto simp: removeObjRefFromSingleLocation_def setDynamicCell_def Let_def
      split: outcome.splits option.splits)

lemma forEach_append:
  "forEach f (xs @ ys) s =
     (case forEach f xs s of
        (Throw e, s') \<Rightarrow> (Throw e, s')
      | (Return u, s') \<Rightarrow> forEach f ys s')"
  by (induction xs arbitrary: s) (auto split: prod.splits outcome.splits)

lemma forEach_objects:
  "(\<And>q t. objects (snd (f q t)) = objects t) \<Longrightarrow> objects (snd (forEach f qs s)) = objects s"
proof (induction qs arbitrary: s)
  case Nil
  show ?case by simp
next
  case (Cons q qs)
  from Cons.prems[of q s] have "objects (snd (f q s)) = objects s" .
  with Cons.IH[OF Cons.prems] show ?case
    by (auto split: prod.splits outcome.splits)
qed

lemma column_cells_step: "lo \<le> hi \<Longrightarrow> column_cells k lo hi = \<lparr>c = k, r = hi\<rparr> # column_cells k lo (hi - 1)"
  by (simp add: column_cells_def upto_rec2)

lemma column_cells_empty: "hi < lo \<Longrightarrow> column_cells k lo hi = []"
  by (simp add: column_cells_def)

lemma add_m_forEach:
  "addObjRefToLocation_m obj p k m s =
     forEach (addObjRefToSingleLocation obj)
       (column_cells k (r p - rowSpan (objects s obj) + 1) m) s"
proof (induction obj p k m s rule: addObjRefToLocation_m.induct)
  case (1 obj p k m s)
  show ?case
  proof (cases "m > r p - rowSpan (objects s obj)")
    case False
    then show ?thesis
      by (subst addObjRefToLocation_m.simps) (simp add: column_cells_empty)
  next
    case True
    then have cc: "column_cells k (r p - rowSpan (objects s obj) + 1) m =
        \<lparr>c = k, r = m\<rparr> # column_cells k (r p - rowSpan (objects s obj) + 1) (m - 1)"
      by (simp add: column_cells_step)
    obtain res s' where step: "addObjRefToSingleLocation obj \<lparr>c = k, r = m\<rparr> s = (res, s')"
      by (cases "addObjRefToSingleLocation obj \<lparr>c = k, r = m\<rparr> s")
    then have os: "objects s' = objects s"
      using add_single_objects[of obj "\<lparr>c = k, r = m\<rparr>" s] by simp
    show ?thesis
    proof (cases res)
      case (Throw e)
      with True step cc show ?thesis
        by (subst addObjRefToLocation_m.simps) simp
    next
      case (Return u)
      with "1.IH" True step os
      have "addObjRefToLocation_m obj p k (m - 1) s' =
          forEach (addObjRefToSingleLocation obj)
            (column_cells k (r p - rowSpan (objects s obj) + 1) (m - 1)) s'"
        by auto
      with True step cc Return show ?thesis
        by (subst addObjRefToLocation_m.simps) simp
    qed
  qed
qed


lemma add_m_objects [simp]:
  "objects (snd (addObjRefToLocation_m obj p k m s)) = objects s"
  by (simp add: add_m_forEach forEach_objects)

lemma add_k_forEach:
  "addObjRefToLocation_k obj p k s =
     forEach (addObjRefToSingleLocation obj)
       (concat (map (\<lambda>j. column_cells j (r p - rowSpan (objects s obj) + 1) (r p))
                    [k .. c p + columnSpan (objects s obj) - 1])) s"
proof (induction obj p k s rule: addObjRefToLocation_k.induct)
  case (1 obj p k s)
  show ?case
  proof (cases "k < c p + columnSpan (objects s obj)")
    case False
    then show ?thesis
      by (subst addObjRefToLocation_k.simps) simp
  next
    case True
    then have up: "[k .. c p + columnSpan (objects s obj) - 1] =
        k # [k + 1 .. c p + columnSpan (objects s obj) - 1]"
      by (simp add: upto_rec1)
    obtain res s' where step: "addObjRefToLocation_m obj p k (r p) s = (res, s')"
      by (cases "addObjRefToLocation_m obj p k (r p) s")
    then have os: "objects s' = objects s"
      using add_m_objects[of obj p k "r p" s] by simp
    from step have fe: "forEach (addObjRefToSingleLocation obj)
        (column_cells k (r p - rowSpan (objects s obj) + 1) (r p)) s = (res, s')"
      by (simp add: add_m_forEach)
    show ?thesis
    proof (cases res)
      case (Throw e)
      with True step fe up show ?thesis
        by (subst addObjRefToLocation_k.simps) (simp add: forEach_append)
    next
      case (Return u)
      with "1.IH" True step os
      have "addObjRefToLocation_k obj p (k + 1) s' =
          forEach (addObjRefToSingleLocation obj)
            (concat (map (\<lambda>j. column_cells j (r p - rowSpan (objects s obj) + 1) (r p))
                    [k + 1 .. c p + columnSpan (objects s obj) - 1])) s'"
        by auto
      with True step fe up Return show ?thesis
        by (subst addObjRefToLocation_k.simps) (simp add: forEach_append)
    qed
  qed
qed

lemma footprint_columns:
  "footprint cs rs p = concat (map (\<lambda>j. column_cells j (r p - rs + 1) (r p)) [c p .. c p + cs - 1])"
  by (simp add: footprint_def column_cells_def)

lemma addObjRefToLocation_footprint:
  "addObjRefToLocation obj p s =
     forEach (addObjRefToSingleLocation obj)
       (footprint (columnSpan (objects s obj)) (rowSpan (objects s obj)) p) s"
  by (simp add: addObjRefToLocation_def add_k_forEach footprint_columns)

lemma footprint_product:
  "footprint cs rs p =
     map (\<lambda>(k, m). \<lparr>c = k, r = m\<rparr>) (List.product [c p .. c p + cs - 1] (rev [r p - rs + 1 .. r p]))"
  by (simp add: footprint_def product_concat_map map_concat comp_def)

lemma set_footprint:
  "set (footprint cs rs p) = {q. c p \<le> c q \<and> c q < c p + cs \<and> r p - rs < r q \<and> r q \<le> r p}"
proof (rule set_eqI)
  fix q :: pos
  have q: "\<lparr>c = c q, r = r q\<rparr> = q" by simp
  have "q \<in> set (footprint cs rs p) \<longleftrightarrow>
        (c q, r q) \<in> set (List.product [c p .. c p + cs - 1] (rev [r p - rs + 1 .. r p]))"
  proof
    assume "q \<in> set (footprint cs rs p)"
    then show "(c q, r q) \<in> set (List.product [c p .. c p + cs - 1] (rev [r p - rs + 1 .. r p]))"
      by (auto simp: footprint_product)
  next
    assume "(c q, r q) \<in> set (List.product [c p .. c p + cs - 1] (rev [r p - rs + 1 .. r p]))"
    then have "(\<lambda>(k, m). \<lparr>c = k, r = m\<rparr>) (c q, r q) \<in> set (footprint cs rs p)"
      unfolding footprint_product set_map by (rule imageI)
    then show "q \<in> set (footprint cs rs p)" by (simp add: q)
  qed
  then show "q \<in> set (footprint cs rs p) \<longleftrightarrow>
        q \<in> {q. c p \<le> c q \<and> c q < c p + cs \<and> r p - rs < r q \<and> r q \<le> r p}"
    by auto
qed

lemma distinct_footprint: "distinct (footprint cs rs p)"
proof -
  have "inj (\<lambda>(k, m). \<lparr>c = k, r = m\<rparr>)"
    by (auto simp: inj_on_def)
  then have "inj_on (\<lambda>(k, m). \<lparr>c = k, r = m\<rparr>) A" for A
    by (rule inj_on_subset) simp
  then show ?thesis
    by (simp add: footprint_product distinct_map distinct_product)
qed

lemma remove_m_forEach:
  "removeObjRefFromLocation_m obj p k m s =
     forEach (removeObjRefFromSingleLocation obj)
       (column_cells k (r p - rowSpan (objects s obj) + 1) m) s"
proof (induction obj p k m s rule: removeObjRefFromLocation_m.induct)
  case (1 obj p k m s)
  show ?case
  proof (cases "m > r p - rowSpan (objects s obj)")
    case False
    then show ?thesis
      by (subst removeObjRefFromLocation_m.simps) (simp add: column_cells_empty)
  next
    case True
    then have cc: "column_cells k (r p - rowSpan (objects s obj) + 1) m =
        \<lparr>c = k, r = m\<rparr> # column_cells k (r p - rowSpan (objects s obj) + 1) (m - 1)"
      by (simp add: column_cells_step)
    obtain res s' where step: "removeObjRefFromSingleLocation obj \<lparr>c = k, r = m\<rparr> s = (res, s')"
      by (cases "removeObjRefFromSingleLocation obj \<lparr>c = k, r = m\<rparr> s")
    then have os: "objects s' = objects s"
      using remove_single_objects[of obj "\<lparr>c = k, r = m\<rparr>" s] by simp
    show ?thesis
    proof (cases res)
      case (Throw e)
      with True step cc show ?thesis
        by (subst removeObjRefFromLocation_m.simps) simp
    next
      case (Return u)
      with "1.IH" True step os
      have "removeObjRefFromLocation_m obj p k (m - 1) s' =
          forEach (removeObjRefFromSingleLocation obj)
            (column_cells k (r p - rowSpan (objects s obj) + 1) (m - 1)) s'"
        by auto
      with True step cc Return show ?thesis
        by (subst removeObjRefFromLocation_m.simps) simp
    qed
  qed
qed

lemma remove_m_objects [simp]:
  "objects (snd (removeObjRefFromLocation_m obj p k m s)) = objects s"
  by (simp add: remove_m_forEach forEach_objects)

lemma remove_k_forEach:
  "removeObjRefFromLocation_k obj p k s =
     forEach (removeObjRefFromSingleLocation obj)
       (concat (map (\<lambda>j. column_cells j (r p - rowSpan (objects s obj) + 1) (r p))
                    [k .. c p + columnSpan (objects s obj) - 1])) s"
proof (induction obj p k s rule: removeObjRefFromLocation_k.induct)
  case (1 obj p k s)
  show ?case
  proof (cases "k < c p + columnSpan (objects s obj)")
    case False
    then show ?thesis
      by (subst removeObjRefFromLocation_k.simps) simp
  next
    case True
    then have up: "[k .. c p + columnSpan (objects s obj) - 1] =
        k # [k + 1 .. c p + columnSpan (objects s obj) - 1]"
      by (simp add: upto_rec1)
    obtain res s' where step: "removeObjRefFromLocation_m obj p k (r p) s = (res, s')"
      by (cases "removeObjRefFromLocation_m obj p k (r p) s")
    then have os: "objects s' = objects s"
      using remove_m_objects[of obj p k "r p" s] by simp
    from step have fe: "forEach (removeObjRefFromSingleLocation obj)
        (column_cells k (r p - rowSpan (objects s obj) + 1) (r p)) s = (res, s')"
      by (simp add: remove_m_forEach)
    show ?thesis
    proof (cases res)
      case (Throw e)
      with True step fe up show ?thesis
        by (subst removeObjRefFromLocation_k.simps) (simp add: forEach_append)
    next
      case (Return u)
      with "1.IH" True step os
      have "removeObjRefFromLocation_k obj p (k + 1) s' =
          forEach (removeObjRefFromSingleLocation obj)
            (concat (map (\<lambda>j. column_cells j (r p - rowSpan (objects s obj) + 1) (r p))
                    [k + 1 .. c p + columnSpan (objects s obj) - 1])) s'"
        by auto
      with True step fe up Return show ?thesis
        by (subst removeObjRefFromLocation_k.simps) (simp add: forEach_append)
    qed
  qed
qed

lemma removeObjRefFromLocation_footprint:
  "removeObjRefFromLocation obj p s =
     forEach (removeObjRefFromSingleLocation obj)
       (footprint (columnSpan (objects s obj)) (rowSpan (objects s obj)) p) s"
  by (simp add: removeObjRefFromLocation_def remove_k_forEach footprint_columns)

subsection \<open>The dynamic layer follows the references of a cell\<close>

text \<open>
  C1. On a cell whose read does not throw, with a path finder present:
  \<^verbatim>\<open>addObjRefToSingleLocation(obj, pos)\<close> calls \<^verbatim>\<open>setDynamicCell(pos.c, pos.r, 0)\<close> exactly
  when \<^verbatim>\<open>obj.isMovableTo\<close> is false and makes no call on the path finder otherwise.
  \<^verbatim>\<open>removeObjRefFromSingleLocation(obj, pos)\<close> on a cell whose list exists makes exactly one
  call: \<^verbatim>\<open>setDynamicCell(pos.c, pos.r, 1)\<close> when every reference that remains after the removal
  can be moved onto (in particular when \<open>obj\<close> was the only reference), and
  \<^verbatim>\<open>setDynamicCell(pos.c, pos.r, 0)\<close> when one of them cannot.
\<close>

theorem dynamic_layer_follows_references:
  assumes "pathFinding s" and "objArray_get s p = Return cell"
  shows "fst (addObjRefToSingleLocation obj p s) = Return () \<and>
         calls (snd (addObjRefToSingleLocation obj p s)) =
           calls s @ (if isMovableTo (objects s obj) then [] else [PF_setDynamicCell (c p) (r p) 0]) \<and>
         (\<forall>a. cell = Some a \<longrightarrow>
            fst (removeObjRefFromSingleLocation obj p s) = Return () \<and>
            calls (snd (removeObjRefFromSingleLocation obj p s)) =
              calls s @ [PF_setDynamicCell (c p) (r p)
                           (if \<forall>x\<in>set (remove1 obj a). isMovableTo (objects s x) then 1 else 0)]) \<and>
         (cell = Some [obj] \<longrightarrow>
            calls (snd (removeObjRefFromSingleLocation obj p s)) =
              calls s @ [PF_setDynamicCell (c p) (r p) 1])"
proof -
  note add = add_single_calls[OF assms, of obj]
  have rem: "fst (removeObjRefFromSingleLocation obj p s) = Return () \<and>
      calls (snd (removeObjRefFromSingleLocation obj p s)) =
        calls s @ [PF_setDynamicCell (c p) (r p)
                     (if \<forall>x\<in>set (remove1 obj a). isMovableTo (objects s x) then 1 else 0)]"
    if "cell = Some a" for a
    using remove_single_calls[of s p a obj] assms that by simp
  from rem[of "[obj]"] have only: "cell = Some [obj] \<Longrightarrow>
      calls (snd (removeObjRefFromSingleLocation obj p s)) =
        calls s @ [PF_setDynamicCell (c p) (r p) 1]"
    by simp
  from add rem only show ?thesis by blast
qed

theorem dynamic_layer_follows_references_witness:
  "pathFinding demo_view \<and>
   objArray_get demo_view \<lparr>c = 1, r = 1\<rparr> = Return (Some [1, 2]) \<and>
   calls (snd (addObjRefToSingleLocation 3 \<lparr>c = 1, r = 1\<rparr> demo_view)) = [PF_setDynamicCell 1 1 0] \<and>
   calls (snd (addObjRefToSingleLocation 2 \<lparr>c = 1, r = 1\<rparr> demo_view)) = [] \<and>
   calls (snd (removeObjRefFromSingleLocation 1 \<lparr>c = 1, r = 1\<rparr> demo_view)) = [PF_setDynamicCell 1 1 1] \<and>
   calls (snd (removeObjRefFromSingleLocation 2 \<lparr>c = 1, r = 1\<rparr> demo_view)) = [PF_setDynamicCell 1 1 0]"
proof -
  have h1: "pathFinding demo_view"
    by (simp add: demo_view_def)
  have h2: "objArray_get demo_view \<lparr>c = 1, r = 1\<rparr> = Return (Some [1, 2])"
    by (simp add: demo_view_def objArray_get_def)
  have o: "calls demo_view = []" "isMovableTo (objects demo_view 1) = False"
    "isMovableTo (objects demo_view 2) = True" "isMovableTo (objects demo_view 3) = False"
    by (simp_all add: demo_view_def demo_object_def)
  from dynamic_layer_follows_references[OF h1 h2, of 3]
       dynamic_layer_follows_references[OF h1 h2, of 2]
       dynamic_layer_follows_references[OF h1 h2, of 1] h1 h2 o
  show ?thesis by simp
qed

subsection \<open>The footprint loops\<close>

lemma objArray_set_rows [simp]:
  "map_option length (objArray (objArray_set p v s)) = map_option length (objArray s)"
  by (auto simp: objArray_set_def split: option.splits)

lemma removeObjRef_scan_pathFinding [simp]:
  "pathFinding (snd (removeObjRef_scan a l q i t)) = pathFinding t"
proof (induction a l q i t rule: removeObjRef_scan.induct)
  case (1 a l q i t)
  then show ?case
    by (subst removeObjRef_scan.simps)
       (auto simp: setDynamicCell_def split: prod.splits outcome.splits)
qed

lemma add_single_frame [simp]:
  "pathFinding (snd (addObjRefToSingleLocation obj q t)) = pathFinding t"
  "map_option length (objArray (snd (addObjRefToSingleLocation obj q t))) = map_option length (objArray t)"
  by (auto simp: addObjRefToSingleLocation_def setDynamicCell_def Let_def
      split: outcome.splits option.splits)

lemma remove_single_frame [simp]:
  "pathFinding (snd (removeObjRefFromSingleLocation obj q t)) = pathFinding t"
  "map_option length (objArray (snd (removeObjRefFromSingleLocation obj q t))) = map_option length (objArray t)"
  by (auto simp: removeObjRefFromSingleLocation_def setDynamicCell_def Let_def
      split: outcome.splits option.splits)

lemma rowsInGrid_rows:
  "map_option length (objArray t) = map_option length (objArray s) \<Longrightarrow> rowsInGrid t qs = rowsInGrid s qs"
  by (auto simp: rowsInGrid_def split: option.splits)

lemma rowsInGrid_get:
  "rowsInGrid s (q # qs) \<Longrightarrow> \<exists>cell. objArray_get s q = Return cell"
  by (auto simp: rowsInGrid_def objArray_get_def split: option.splits)

lemma rowsInGrid_tail: "rowsInGrid s (q # qs) \<Longrightarrow> rowsInGrid s qs"
  by (auto simp: rowsInGrid_def split: option.splits)

lemma remove_single_returns:
  assumes "pathFinding s" and "objArray_get s p = Return cell"
  shows "fst (removeObjRefFromSingleLocation obj p s) = Return ()"
proof (cases cell)
  case None
  with assms show ?thesis by (simp add: removeObjRefFromSingleLocation_def)
next
  case (Some a)
  with remove_single_calls[of s p a obj] assms show ?thesis by simp
qed

lemma forEach_returns:
  assumes f: "\<And>q t cell. pathFinding t \<Longrightarrow> objArray_get t q = Return cell \<Longrightarrow> fst (f q t) = Return ()"
    and pf: "\<And>q t. pathFinding (snd (f q t)) = pathFinding t"
    and rows: "\<And>q t. map_option length (objArray (snd (f q t))) = map_option length (objArray t)"
  shows "pathFinding s \<Longrightarrow> rowsInGrid s qs \<Longrightarrow> fst (forEach f qs s) = Return ()"
proof (induction qs arbitrary: s)
  case Nil
  show ?case by simp
next
  case (Cons q qs)
  from rowsInGrid_get[OF Cons.prems(2)] obtain cell where "objArray_get s q = Return cell" ..
  from f[OF Cons.prems(1) this] have r1: "fst (f q s) = Return ()" .
  obtain res s' where step: "f q s = (res, s')" by (cases "f q s")
  with r1 have res: "res = Return ()" by simp
  from step pf[of q s] Cons.prems(1) have p': "pathFinding s'" by simp
  from step rows[of q s] have "map_option length (objArray s') = map_option length (objArray s)" by simp
  from rowsInGrid_rows[OF this] rowsInGrid_tail[OF Cons.prems(2)] have "rowsInGrid s' qs" by simp
  from Cons.IH[OF p' this] step res show ?case by simp
qed

text \<open>
  C6. For a location and spans within JavaScript's safe integers (as every location of a
  map table is), \<^verbatim>\<open>addObjRefToLocation(obj, pos)\<close> and \<^verbatim>\<open>removeObjRefFromLocation(obj, pos)\<close>
  apply their single-cell operation to the cells of the footprint in turn (a throw of the
  single-cell operation ends the loops): the footprint lists every cell once, and its
  cells are the columns \<open>pos.c \<le> k < pos.c + columnSpan\<close> paired with the rows
  \<open>pos.r - rowSpan < m \<le> pos.r\<close>. When the rows of the footprint lie in the object table
  and the path finder is present, no call throws, so every cell of the footprint is
  visited.
\<close>

theorem location_loops_visit_footprint_once:
  assumes "withinSafeIntegers (objects s obj) p"
  shows "addObjRefToLocation obj p s =
     forEach (addObjRefToSingleLocation obj)
       (footprint (columnSpan (objects s obj)) (rowSpan (objects s obj)) p) s \<and>
   removeObjRefFromLocation obj p s =
     forEach (removeObjRefFromSingleLocation obj)
       (footprint (columnSpan (objects s obj)) (rowSpan (objects s obj)) p) s \<and>
   distinct (footprint cs rs p) \<and>
   set (footprint cs rs p) =
     {q. c p \<le> c q \<and> c q < c p + cs \<and> r p - rs < r q \<and> r q \<le> r p} \<and>
   (\<forall>q \<in> set (footprint (columnSpan (objects s obj)) (rowSpan (objects s obj)) p).
      safeInteger (c q) \<and> safeInteger (r q)) \<and>
   (pathFinding s \<and> rowsInGrid s (footprint (columnSpan (objects s obj)) (rowSpan (objects s obj)) p) \<longrightarrow>
      fst (addObjRefToLocation obj p s) = Return () \<and>
      fst (removeObjRefFromLocation obj p s) = Return ())"
proof -
  have ret: "fst (addObjRefToLocation obj p s) = Return () \<and>
      fst (removeObjRefFromLocation obj p s) = Return ()"
    if "pathFinding s"
      and "rowsInGrid s (footprint (columnSpan (objects s obj)) (rowSpan (objects s obj)) p)"
  proof -
    have a: "fst (addObjRefToSingleLocation obj q t) = Return ()"
      if "pathFinding t" "objArray_get t q = Return cell" for q t cell
      using add_single_calls[OF that, of obj] by simp
    have b: "fst (removeObjRefFromSingleLocation obj q t) = Return ()"
      if "pathFinding t" "objArray_get t q = Return cell" for q t cell
      using remove_single_returns[OF that] .
    from forEach_returns[of "addObjRefToSingleLocation obj", OF a _ _ that]
         forEach_returns[of "removeObjRefFromSingleLocation obj", OF b _ _ that]
    show ?thesis
      by (simp add: addObjRefToLocation_footprint removeObjRefFromLocation_footprint)
  qed
  have safe: "\<forall>q \<in> set (footprint (columnSpan (objects s obj)) (rowSpan (objects s obj)) p).
      safeInteger (c q) \<and> safeInteger (r q)"
    using assms unfolding set_footprint withinSafeIntegers_def safeInteger_def by auto
  from ret safe show ?thesis
    using addObjRefToLocation_footprint[of obj p s] removeObjRefFromLocation_footprint[of obj p s]
      distinct_footprint[of cs rs p] set_footprint[of cs rs p]
    by blast
qed

theorem location_loops_visit_footprint_once_witness:
  "withinSafeIntegers (objects demo_view 4) \<lparr>c = 1, r = 1\<rparr> \<and>
   footprint 2 2 \<lparr>c = 1, r = 1\<rparr> =
     [\<lparr>c = 1, r = 1\<rparr>, \<lparr>c = 1, r = 0\<rparr>, \<lparr>c = 2, r = 1\<rparr>, \<lparr>c = 2, r = 0\<rparr>] \<and>
   pathFinding demo_view \<and>
   rowsInGrid demo_view (footprint 2 2 \<lparr>c = 1, r = 1\<rparr>) \<and>
   fst (addObjRefToLocation 4 \<lparr>c = 1, r = 1\<rparr> demo_view) = Return () \<and>
   fst (removeObjRefFromLocation 4 \<lparr>c = 1, r = 1\<rparr> demo_view) = Return () \<and>
   addObjRefToLocation 4 \<lparr>c = 1, r = 1\<rparr> demo_view =
     forEach (addObjRefToSingleLocation 4)
       [\<lparr>c = 1, r = 1\<rparr>, \<lparr>c = 1, r = 0\<rparr>, \<lparr>c = 2, r = 1\<rparr>, \<lparr>c = 2, r = 0\<rparr>] demo_view"
proof -
  have fp: "footprint 2 2 \<lparr>c = 1, r = 1\<rparr> =
     [\<lparr>c = 1, r = 1\<rparr>, \<lparr>c = 1, r = 0\<rparr>, \<lparr>c = 2, r = 1\<rparr>, \<lparr>c = 2, r = 0\<rparr>]"
    by (simp add: footprint_def upto_rec1)
  have o: "columnSpan (objects demo_view 4) = 2" "rowSpan (objects demo_view 4) = 2"
    by (simp_all add: demo_view_def demo_object_def)
  have h0: "withinSafeIntegers (objects demo_view 4) \<lparr>c = 1, r = 1\<rparr>"
    by (simp add: withinSafeIntegers_def safeInteger_def o)
  have h1: "pathFinding demo_view"
    by (simp add: demo_view_def)
  have h2: "rowsInGrid demo_view (footprint 2 2 \<lparr>c = 1, r = 1\<rparr>)"
    by (simp add: fp rowsInGrid_def demo_view_def)
  note T = location_loops_visit_footprint_once[OF h0, of 2 2, unfolded o]
  from T h1 h2 have "fst (addObjRefToLocation 4 \<lparr>c = 1, r = 1\<rparr> demo_view) = Return ()"
    "fst (removeObjRefFromLocation 4 \<lparr>c = 1, r = 1\<rparr> demo_view) = Return ()"
    "addObjRefToLocation 4 \<lparr>c = 1, r = 1\<rparr> demo_view =
       forEach (addObjRefToSingleLocation 4) (footprint 2 2 \<lparr>c = 1, r = 1\<rparr>) demo_view"
    by blast+
  with fp h0 h1 h2 show ?thesis by (simp only: simp_thms)
qed

subsection \<open>No duplicate references\<close>

lemma noDuplicateRefs_cong:
  "objArray t = objArray s \<Longrightarrow> noDuplicateRefs t = noDuplicateRefs s"
  by (simp add: noDuplicateRefs_def)

lemma noDuplicateRefs_set:
  assumes "noDuplicateRefs s" and "case v of None \<Rightarrow> True | Some l \<Rightarrow> distinct l"
  shows "noDuplicateRefs (objArray_set p v s)"
proof (cases "objArray s")
  case None
  with assms show ?thesis by (simp add: objArray_set_def noDuplicateRefs_def)
next
  case (Some rows)
  show ?thesis
  proof (cases "0 \<le> r p \<and> r p < int (length rows)")
    case False
    with Some assms show ?thesis by (auto simp: objArray_set_def)
  next
    case True
    have "distinct a" if "i < length rows"
      and "((rows[nat (r p) := (rows ! nat (r p))(c p := v)]) ! i) k = Some a" for i k a
    proof (cases "i = nat (r p) \<and> k = c p")
      case True
      with that assms(2) show ?thesis by simp
    next
      case False
      with that have "(rows ! i) k = Some a"
        by (cases "i = nat (r p)") (auto simp: nth_list_update)
      with assms(1) Some that(1) show ?thesis
        by (auto simp: noDuplicateRefs_def)
    qed
    with Some True show ?thesis
      by (simp add: objArray_set_def noDuplicateRefs_def)
  qed
qed

lemma noDuplicateRefs_get:
  assumes "noDuplicateRefs s" and "objArray_get s p = Return (Some a)"
  shows "distinct a"
proof -
  from assms(2) obtain rows where rows: "objArray s = Some rows" "0 \<le> r p" "r p < int (length rows)"
    "(rows ! nat (r p)) (c p) = Some a"
    by (auto simp: objArray_get_def split: option.splits if_splits)
  then have "nat (r p) < length rows" by simp
  with assms(1) rows show ?thesis
    unfolding noDuplicateRefs_def by (simp; blast)
qed

lemma objArray_get_set:
  "objArray_get s p = Return cell \<Longrightarrow> objArray_get (objArray_set p v s) p = Return v"
  by (auto simp: objArray_get_def objArray_set_def split: option.splits if_splits)

lemma objArray_get_cong:
  "objArray t = objArray s \<Longrightarrow> objArray_get t p = objArray_get s p"
  by (simp add: objArray_get_def)

lemma add_single_cell:
  assumes "objArray_get s p = Return cell"
  shows "objArray_get (snd (addObjRefToSingleLocation obj p s)) p =
     Return (Some (case cell of None \<Rightarrow> [obj] | Some a \<Rightarrow> if obj \<in> set a then a else a @ [obj]))"
proof -
  define a where "a = (case cell of None \<Rightarrow> [] | Some l \<Rightarrow> l)"
  define s1 where "s1 = (if cell = None then objArray_set p (Some []) s else s)"
  define s2 where "s2 = (if indexOf a obj < 0 then objArray_set p (Some (a @ [obj])) s1 else s1)"
  have g1: "objArray_get s1 p = Return (Some a)"
    using assms by (auto simp: s1_def a_def objArray_get_set split: option.splits)
  have g2: "objArray_get s2 p = Return (Some (if obj \<in> set a then a else a @ [obj]))"
    using g1 by (auto simp: s2_def objArray_get_set indexOf_neg_iff)
  have eq: "addObjRefToSingleLocation obj p s =
      (if \<not> isMovableTo (objects s2 obj) then setDynamicCell (c p) (r p) 0 s2 else (Return (), s2))"
    using assms by (simp add: addObjRefToSingleLocation_def Let_def a_def s1_def s2_def)
  have "objArray (snd (addObjRefToSingleLocation obj p s)) = objArray s2"
    by (simp add: eq)
  from objArray_get_cong[OF this] g2 show ?thesis
    by (cases cell) (simp_all add: a_def)
qed

lemma add_single_noDup:
  assumes "noDuplicateRefs s"
  shows "noDuplicateRefs (snd (addObjRefToSingleLocation obj p s))"
proof (cases "objArray_get s p")
  case (Throw e)
  with assms show ?thesis by (simp add: addObjRefToSingleLocation_def)
next
  case (Return cell)
  define a where "a = (case cell of None \<Rightarrow> [] | Some l \<Rightarrow> l)"
  define s1 where "s1 = (if cell = None then objArray_set p (Some []) s else s)"
  define s2 where "s2 = (if indexOf a obj < 0 then objArray_set p (Some (a @ [obj])) s1 else s1)"
  have da: "distinct a"
    using noDuplicateRefs_get[OF assms, of p] Return by (cases cell) (simp_all add: a_def)
  have n1: "noDuplicateRefs s1"
    using assms by (simp add: s1_def noDuplicateRefs_set)
  have n2: "noDuplicateRefs s2"
    using n1 da by (auto simp: s2_def indexOf_neg_iff intro!: noDuplicateRefs_set)
  have eq: "addObjRefToSingleLocation obj p s =
      (if \<not> isMovableTo (objects s2 obj) then setDynamicCell (c p) (r p) 0 s2 else (Return (), s2))"
    using Return by (simp add: addObjRefToSingleLocation_def Let_def a_def s1_def s2_def)
  have "objArray (snd (addObjRefToSingleLocation obj p s)) = objArray s2"
    by (simp add: eq)
  from noDuplicateRefs_cong[OF this] n2 show ?thesis by simp
qed

lemma remove_single_objArray:
  assumes "objArray_get s p = Return (Some a0)"
  shows "pathFinding s \<Longrightarrow> objArray_get (snd (removeObjRefFromSingleLocation obj p s)) p =
           Return (if remove1 obj a0 = [] then None else Some (remove1 obj a0))"
    and "noDuplicateRefs s \<Longrightarrow> noDuplicateRefs (snd (removeObjRefFromSingleLocation obj p s))"
proof -
  define a where "a = (if indexOf a0 obj > - 1 then splice1 a0 (indexOf a0 obj) else a0)"
  have a: "a = remove1 obj a0"
  proof (cases "obj \<in> set a0")
    case True
    with indexOf_range[OF True] show ?thesis by (simp add: a_def splice1_indexOf)
  next
    case False
    then have "indexOf a0 obj < 0" by (simp add: indexOf_neg_iff)
    with False show ?thesis by (simp add: a_def remove1_idem)
  qed
  define s1 where "s1 = (if indexOf a0 obj > - 1 then objArray_set p (Some a) s else s)"
  have g1: "objArray_get s1 p = Return (Some a)"
  proof (cases "indexOf a0 obj > - 1")
    case True
    with assms show ?thesis by (simp add: s1_def objArray_get_set)
  next
    case False
    with assms show ?thesis by (simp add: s1_def a_def)
  qed
  have eq: "removeObjRefFromSingleLocation obj p s =
      (if length a = 0 then
         (case setDynamicCell (c p) (r p) 1 s1 of
            (Throw e, s') \<Rightarrow> (Throw e, s')
          | (Return u, s') \<Rightarrow> (Return (), objArray_set p None s'))
       else removeObjRef_scan a (length a) p 0 s1)"
    using assms by (simp add: removeObjRefFromSingleLocation_def Let_def a_def s1_def)
  show "objArray_get (snd (removeObjRefFromSingleLocation obj p s)) p =
           Return (if remove1 obj a0 = [] then None else Some (remove1 obj a0))"
    if "pathFinding s"
  proof (cases "a = []")
    case True
    from that have "pathFinding s1" by (simp add: s1_def)
    then have "snd (removeObjRefFromSingleLocation obj p s) =
        objArray_set p None (s1\<lparr>calls := calls s1 @ [PF_setDynamicCell (c p) (r p) 1]\<rparr>)"
      using True by (simp add: eq setDynamicCell_def)
    moreover have "objArray_get (s1\<lparr>calls := calls s1 @ [PF_setDynamicCell (c p) (r p) 1]\<rparr>) p = Return (Some a)"
      using g1 by (simp add: objArray_get_def)
    ultimately show ?thesis using True a by (simp add: objArray_get_set)
  next
    case False
    then have "objArray (snd (removeObjRefFromSingleLocation obj p s)) = objArray s1"
      by (simp add: eq)
    from objArray_get_cong[OF this] g1 False a show ?thesis by simp
  qed
  show "noDuplicateRefs (snd (removeObjRefFromSingleLocation obj p s))" if inv: "noDuplicateRefs s"
  proof -
    from noDuplicateRefs_get[OF inv assms] have "distinct a" by (simp add: a)
    with inv have n1: "noDuplicateRefs s1" by (simp add: s1_def noDuplicateRefs_set)
    show ?thesis
    proof (cases "a = []")
      case True
      have "noDuplicateRefs (objArray_set p None t)" if "objArray t = objArray s1" for t
        using noDuplicateRefs_cong[OF that] n1 by (simp add: noDuplicateRefs_set)
      with True n1 show ?thesis
        by (auto simp: eq setDynamicCell_def)
    next
      case False
      then have "objArray (snd (removeObjRefFromSingleLocation obj p s)) = objArray s1"
        by (simp add: eq)
      from noDuplicateRefs_cong[OF this] n1 show ?thesis by simp
    qed
  qed
qed

lemma remove_single_noDup:
  assumes "noDuplicateRefs s"
  shows "noDuplicateRefs (snd (removeObjRefFromSingleLocation obj p s))"
proof (cases "objArray_get s p")
  case (Throw e)
  with assms show ?thesis by (simp add: removeObjRefFromSingleLocation_def)
next
  case (Return cell)
  show ?thesis
  proof (cases cell)
    case None
    with Return assms show ?thesis by (simp add: removeObjRefFromSingleLocation_def)
  next
    case (Some a0)
    with Return remove_single_objArray(2)[of s p a0 obj] assms show ?thesis by simp
  qed
qed

lemma removeAll_noDup:
  assumes "noDuplicateRefs s"
  shows "noDuplicateRefs (snd (removeAllObjectRefsFromLocation p s))"
proof -
  have "noDuplicateRefs (objArray_set p None t)" if "objArray t = objArray s" for t
    using noDuplicateRefs_cong[OF that] assms by (simp add: noDuplicateRefs_set)
  with assms show ?thesis
    by (auto simp: removeAllObjectRefsFromLocation_def setDynamicCell_def
        split: outcome.splits option.splits)
qed

lemma forEach_invariant:
  assumes "\<And>q t. P t \<Longrightarrow> P (snd (f q t))"
  shows "P s \<Longrightarrow> P (snd (forEach f qs s))"
proof (induction qs arbitrary: s)
  case Nil
  then show ?case by simp
next
  case (Cons q qs)
  from assms[OF Cons.prems, of q] Cons.IH show ?case
    by (auto split: prod.splits outcome.splits)
qed

lemma add_location_noDup:
  "noDuplicateRefs s \<Longrightarrow> noDuplicateRefs (snd (addObjRefToLocation obj p s))"
  unfolding addObjRefToLocation_footprint
  by (rule forEach_invariant) (rule add_single_noDup)

lemma remove_location_noDup:
  "noDuplicateRefs s \<Longrightarrow> noDuplicateRefs (snd (removeObjRefFromLocation obj p s))"
  unfolding removeObjRefFromLocation_footprint
  by (rule forEach_invariant) (rule remove_single_noDup)

lemma arrangeObjLocation_noDup:
  assumes "noDuplicateRefs s"
  shows "noDuplicateRefs (snd (arrangeObjLocation obj p s))"
proof -
  obtain r1 s1 where a: "removeObjRefFromLocation obj (mapPos (objects s obj)) s = (r1, s1)"
    by (cases "removeObjRefFromLocation obj (mapPos (objects s obj)) s")
  with remove_location_noDup[OF assms, of obj "mapPos (objects s obj)"] have n1: "noDuplicateRefs s1"
    by simp
  obtain r2 s2 where b: "addObjRefToLocation obj p s1 = (r2, s2)"
    by (cases "addObjRefToLocation obj p s1")
  with add_location_noDup[OF n1, of obj p] have n2: "noDuplicateRefs s2" by simp
  have "noDuplicateRefs (s2\<lparr>objects := f\<rparr>)" for f
    using n2 by (simp add: noDuplicateRefs_def)
  with a b n1 n2 show ?thesis
    by (auto simp: arrangeObjLocation_def split: outcome.splits)
qed


subsection \<open>The arguments of solve\<close>

text \<open>
  C2, as the code has it. \<^verbatim>\<open>getPath(from, to)\<close> on a view with a path finder makes the one
  call \<^verbatim>\<open>solve(from.c, from.r, to.c, to.r)\<close>, column first, and returns its result.
\<close>

theorem getPath_passes_column_first:
  assumes "pathFinding s"
  shows "getPath X a b s =
     (Return (solve_returns X (calls s) (c a) (r a) (c b) (r b)),
      s\<lparr>calls := calls s @
            [PF_solve (c a) (r a) (c b) (r b) (solve_returns X (calls s) (c a) (r a) (c b) (r b))]\<rparr>)"
  using assms by (simp add: getPath_def Let_def)

theorem getPath_passes_column_first_witness:
  "pathFinding demo_view \<and>
   fst (getPath demo_externals \<lparr>c = 0, r = 2\<rparr> \<lparr>c = 2, r = 1\<rparr> demo_view) = Return (Some [\<lparr>c = 2, r = 1\<rparr>]) \<and>
   calls (snd (getPath demo_externals \<lparr>c = 0, r = 2\<rparr> \<lparr>c = 2, r = 1\<rparr> demo_view)) =
     [PF_solve 0 2 2 1 (Some [\<lparr>c = 2, r = 1\<rparr>])]"
proof -
  have h: "pathFinding demo_view"
    by (simp add: demo_view_def)
  have cs: "calls demo_view = []"
    by (simp add: demo_view_def)
  from getPath_passes_column_first[OF h, of demo_externals "\<lparr>c = 0, r = 2\<rparr>" "\<lparr>c = 2, r = 1\<rparr>"] h cs
  show ?thesis by (simp add: demo_externals_def)
qed

text \<open>
  The claim as worded (\<^verbatim>\<open>solve(fromRow, fromCol, toRow, toCol)\<close>) fails: from
  \<open>(c = 0, r = 2)\<close> to \<open>(c = 2, r = 1)\<close> the first argument of the call is the source column 0,
  not the source row 2.
\<close>

theorem getPath_row_first_counterexample:
  "calls (snd (getPath demo_externals \<lparr>c = 0, r = 2\<rparr> \<lparr>c = 2, r = 1\<rparr> demo_view)) =
     [PF_solve 0 2 2 1 (Some [\<lparr>c = 2, r = 1\<rparr>])] \<and>
   PF_solve 0 2 2 1 (Some [\<lparr>c = 2, r = 1\<rparr>]) \<noteq>
     PF_solve (r \<lparr>c = 0, r = 2\<rparr>) (c \<lparr>c = 0, r = 2\<rparr>) (r \<lparr>c = 2, r = 1\<rparr>) (c \<lparr>c = 2, r = 1\<rparr>)
       (Some [\<lparr>c = 2, r = 1\<rparr>])"
  by (simp add: getPath_def demo_view_def demo_externals_def Let_def)

subsection \<open>After destroy\<close>

lemma destroy_nulls_pathFinding:
  "fst (destroy s) = Return () \<Longrightarrow> \<not> pathFinding (snd (destroy s))"
  by (auto simp: destroy_def Let_def split: if_splits prod.splits outcome.splits option.splits)

text \<open>
  C9. \<^verbatim>\<open>destroy\<close> sets \<^verbatim>\<open>this.pathFinding\<close> to \<^verbatim>\<open>null\<close>; once it has returned, \<^verbatim>\<open>getPath\<close> throws
  the error "Path finding hasn't been initialized yet!" for every pair of locations, and
  makes no call.
\<close>

theorem getPath_after_destroy_throws:
  assumes "fst (destroy s) = Return ()"
  shows "getPath X a b (snd (destroy s)) =
     (Throw (Error ''Path finding hasn't been initialized yet!''), snd (destroy s))"
  using destroy_nulls_pathFinding[OF assms] by (simp add: getPath_def)

lemma destroy_demo_view: "fst (destroy demo_view) = Return ()"
  by code_simp

theorem getPath_after_destroy_throws_witness:
  "fst (destroy demo_view) = Return () \<and>
   fst (getPath demo_externals \<lparr>c = 0, r = 2\<rparr> \<lparr>c = 2, r = 1\<rparr> (snd (destroy demo_view))) =
     Throw (Error ''Path finding hasn't been initialized yet!'')"
  using getPath_after_destroy_throws[OF destroy_demo_view, of demo_externals "\<lparr>c = 0, r = 2\<rparr>" "\<lparr>c = 2, r = 1\<rparr>"]
    destroy_demo_view
  by simp

subsection \<open>The static layer is written by the tile loops only\<close>

lemma tileArray_set_fields [simp]:
  "objects (tileArray_set p v s) = objects s"
  "calls (tileArray_set p v s) = calls s"
  "pathFinding (tileArray_set p v s) = pathFinding s"
  "moveEngine (tileArray_set p v s) = moveEngine s"
  "config (tileArray_set p v s) = config s"
  "objArray (tileArray_set p v s) = objArray s"
  "currentControllable (tileArray_set p v s) = currentControllable s"
  "mapSizeR (tileArray_set p v s) = mapSizeR s"
  "mapSizeC (tileArray_set p v s) = mapSizeC s"
  "mapData (tileArray_set p v s) = mapData s"
  "nextOid (tileArray_set p v s) = nextOid s"
  by (auto simp: tileArray_set_def split: option.splits)

lemma createMap_tile_result:
  assumes "pathFinding s"
  shows "fst (createMap_tile X g i j s) = Return () \<and>
         pathFinding (snd (createMap_tile X g i j s)) \<and>
         calls (snd (createMap_tile X g i j s)) =
           calls s @ (if staticBlocked X g i j then [PF_setCell (int j) (int i) 0] else [])"
  using assms
  by (auto simp: createMap_tile_def staticBlocked_def setCell_def Let_def split: option.splits)

lemma forEach_calls:
  assumes "\<And>x t. pathFinding t \<Longrightarrow>
      fst (f x t) = Return () \<and> pathFinding (snd (f x t)) \<and> calls (snd (f x t)) = calls t @ g x"
  shows "pathFinding s \<Longrightarrow>
      fst (forEach f xs s) = Return () \<and> pathFinding (snd (forEach f xs s)) \<and>
      calls (snd (forEach f xs s)) = calls s @ concat (map g xs)"
proof (induction xs arbitrary: s)
  case Nil
  then show ?case by simp
next
  case (Cons x xs)
  obtain res s' where step: "f x s = (res, s')" by (cases "f x s")
  with assms[OF Cons.prems, of x] have res: "res = Return ()" and p': "pathFinding s'"
    and c': "calls s' = calls s @ g x" by simp_all
  from Cons.IH[OF p'] step res c' show ?case by simp
qed

lemma forEach_appends:
  assumes "\<And>x u. \<exists>ds. calls (snd (f x u)) = calls u @ ds \<and> filter P ds = []"
  shows "\<exists>ds. calls (snd (forEach f xs s)) = calls s @ ds \<and> filter P ds = []"
proof (induction xs arbitrary: s)
  case Nil
  show ?case by simp
next
  case (Cons x xs)
  obtain res s' where step: "f x s = (res, s')" by (cases "f x s")
  from assms[of x s] step obtain d1 where d1: "calls s' = calls s @ d1" "filter P d1 = []" by auto
  show ?case
  proof (cases res)
    case (Throw e)
    with step d1 show ?thesis by simp
  next
    case (Return u)
    from Cons.IH[of s'] obtain d2
      where "calls (snd (forEach f xs s')) = calls s' @ d2" "filter P d2 = []" by auto
    with step Return d1 have "calls (snd (forEach f (x # xs) s)) = calls s @ (d1 @ d2) \<and>
        filter P (d1 @ d2) = []" by simp
    then show ?thesis by blast
  qed
qed

lemma add_single_appends:
  "\<exists>ds. calls (snd (addObjRefToSingleLocation obj p s)) = calls s @ ds \<and> filter isSetCell ds = []"
  by (auto simp: addObjRefToSingleLocation_def setDynamicCell_def Let_def isSetCell_def
      split: outcome.splits option.splits)

lemma add_location_appends:
  "\<exists>ds. calls (snd (addObjRefToLocation obj p s)) = calls s @ ds \<and> filter isSetCell ds = []"
  unfolding addObjRefToLocation_footprint
  by (rule forEach_appends) (rule add_single_appends)

lemma createMap_object_appends:
  "\<exists>ds. calls (snd (createMap_object X md i j s)) = calls s @ ds \<and> filter isSetCell ds = []"
proof (cases "i < length (objectsMapData md)")
  case False
  then show ?thesis by (simp add: createMap_object_def Let_def)
next
  case True
  show ?thesis
  proof (cases "entryAt (objectsMapData md ! i) j")
    case None
    with True show ?thesis by (simp add: createMap_object_def Let_def)
  next
    case (Some ty)
    define p where "p = \<lparr>c = int j, r = int i\<rparr>"
    define s1 where "s1 = objArray_set p None s"
    define s2 where "s2 = s1\<lparr>objects := (objects s1)(nextOid s1 := (newObjectView X ty)\<lparr>mapPos := p\<rparr>),
                            nextOid := nextOid s1 + 1\<rparr>"
    have c2: "calls s2 = calls s" by (simp add: s2_def s1_def)
    obtain res s3 where a: "addObjRefToLocation (nextOid s1) p s2 = (res, s3)"
      by (cases "addObjRefToLocation (nextOid s1) p s2")
    with add_location_appends[of "nextOid s1" p s2] c2
    have c3: "\<exists>ds. calls s3 = calls s @ ds \<and> filter isSetCell ds = []" by simp
    have eq: "createMap_object X md i j s =
        (case addObjRefToLocation (nextOid s1) p s2 of
           (Throw e, s3) \<Rightarrow> (Throw e, s3)
         | (Return u, s3) \<Rightarrow>
             (Return (),
              if initialControllableLocation md = Some (int j, int i)
              then s3\<lparr>currentControllable := Some (nextOid s1)\<rparr> else s3))"
      unfolding createMap_object_def Let_def p_def s1_def s2_def using True Some by simp
    from a c3 show ?thesis by (cases res) (auto simp: eq)
  qed
qed

lemma createMap_objects_appends:
  "\<exists>ds. calls (snd (forEach (\<lambda>i. forEach (createMap_object X md i) js) is s)) = calls s @ ds \<and>
        filter isSetCell ds = []"
  by (rule forEach_appends) (rule forEach_appends, rule createMap_object_appends)

lemma createMap_tiles_result:
  assumes "pathFinding s"
  shows "fst (forEach (\<lambda>i. forEach (createMap_tile X g i) js) is s) = Return () \<and>
         pathFinding (snd (forEach (\<lambda>i. forEach (createMap_tile X g i) js) is s)) \<and>
         calls (snd (forEach (\<lambda>i. forEach (createMap_tile X g i) js) is s)) =
           calls s @ concat (map (\<lambda>i. concat (map (\<lambda>j.
               if staticBlocked X g i j then [PF_setCell (int j) (int i) 0] else []) js)) is)"
proof (rule forEach_calls[OF _ assms])
  fix i :: nat and t :: EngineView
  assume pt: "pathFinding t"
  show "fst (forEach (createMap_tile X g i) js t) = Return () \<and>
         pathFinding (snd (forEach (createMap_tile X g i) js t)) \<and>
         calls (snd (forEach (createMap_tile X g i) js t)) =
           calls t @ concat (map (\<lambda>j.
               if staticBlocked X g i j then [PF_setCell (int j) (int i) 0] else []) js)"
  proof (rule forEach_calls[OF _ pt])
    fix j :: nat and u :: EngineView
    assume "pathFinding u"
    then show "fst (createMap_tile X g i j u) = Return () \<and>
         pathFinding (snd (createMap_tile X g i j u)) \<and>
         calls (snd (createMap_tile X g i j u)) =
           calls u @ (if staticBlocked X g i j then [PF_setCell (int j) (int i) 0] else [])"
      by (rule createMap_tile_result)
  qed
qed

text \<open>
  C3. In \<^verbatim>\<open>createMap\<close> the calls of \<^verbatim>\<open>setCell\<close> are, row by row and within a row from the
  last column down, the calls \<^verbatim>\<open>setCell(j, i, 0)\<close> for exactly the cells whose ground entry
  is falsy or whose tile is not movable onto; the object loops add none. So a call
  \<^verbatim>\<open>setCell(a, b, w)\<close> made by \<^verbatim>\<open>createMap\<close> has \<open>w = 0\<close> and names such a cell, and every
  such cell gets its call.
\<close>

theorem createMap_static_layer:
  assumes "config s = Some cf" and "mapData s = Some md" and "groundMapData md = row0 # rest"
  shows "filter isSetCell (calls (snd (createMap X s))) =
           filter isSetCell (calls s) @
           concat (map (\<lambda>i. concat (map (\<lambda>j.
               if staticBlocked X (groundMapData md) i j then [PF_setCell (int j) (int i) 0] else [])
             (rev [0 ..< length row0]))) [0 ..< length (groundMapData md)]) \<and>
         (\<forall>i j. i < length (groundMapData md) \<and> j < length row0 \<longrightarrow>
            (PF_setCell (int j) (int i) 0 \<in> set (drop (length (calls s)) (calls (snd (createMap X s))))
             \<longleftrightarrow> staticBlocked X (groundMapData md) i j))"
proof -
  define g where "g = groundMapData md"
  define nR where "nR = length g"
  define nC where "nC = length row0"
  define s1 where "s1 = s\<lparr>mapSizeR := int nR, mapSizeC := int nC,
                          tileArray := Some (replicate nR (\<lambda>j. None)),
                          objArray := Some (replicate nR (\<lambda>j. None)),
                          pathFinding := True,
                          calls := calls s @
                            [PF_new (int nC) (int nR) (pathFindingDiagonal cf) (pathFindingClosest cf)]\<rparr>"
  define tiles where "tiles = forEach (\<lambda>i. forEach (createMap_tile X g i) (rev [0 ..< nC])) [0 ..< nR] s1"
  define block where "block = concat (map (\<lambda>i. concat (map (\<lambda>j.
               if staticBlocked X g i j then [PF_setCell (int j) (int i) 0] else [])
             (rev [0 ..< nC]))) [0 ..< nR])"
  have p1: "pathFinding s1" by (simp add: s1_def)
  from createMap_tiles_result[OF p1, of X g "rev [0 ..< nC]" "[0 ..< nR]"]
  have t1: "fst tiles = Return ()"
    and t3: "calls (snd tiles) = calls s1 @ block"
    by (simp_all add: tiles_def block_def)
  have eq: "createMap X s =
      forEach (\<lambda>i. forEach (createMap_object X md i) (rev [0 ..< nC])) [0 ..< nR] (snd tiles)"
    using assms t1 unfolding createMap_def Let_def tiles_def s1_def nR_def nC_def g_def
    by (auto split: prod.splits outcome.splits)
  have all: "list_all isSetCell block"
    by (auto simp: block_def list_all_iff isSetCell_def)
  then have fb: "filter isSetCell block = block"
    by (simp add: list_all_iff)
  from createMap_objects_appends[of X md "rev [0 ..< nC]" "[0 ..< nR]" "snd tiles"]
  obtain d where d: "calls (snd (createMap X s)) = calls (snd tiles) @ d" "filter isSetCell d = []"
    unfolding eq by blast
  define ds where "ds = [PF_new (int nC) (int nR) (pathFindingDiagonal cf) (pathFindingClosest cf)] @ block @ d"
  have ds: "calls (snd (createMap X s)) = calls s @ ds"
    by (simp add: d t3 s1_def ds_def)
  have fds: "filter isSetCell ds = block"
    by (simp add: ds_def d fb isSetCell_def)
  have c1: "filter isSetCell (calls (snd (createMap X s))) = filter isSetCell (calls s) @ block"
    by (simp add: ds fds)
  have mem: "PF_setCell (int j) (int i) 0 \<in> set block \<longleftrightarrow> staticBlocked X g i j"
    if "i < nR" "j < nC" for i j
    using that by (auto simp: block_def split: if_splits)
  have "PF_setCell (int j) (int i) 0 \<in> set ds \<longleftrightarrow> staticBlocked X g i j" if "i < nR" "j < nC" for i j
  proof -
    have "PF_setCell (int j) (int i) 0 \<in> set ds \<longleftrightarrow> PF_setCell (int j) (int i) 0 \<in> set (filter isSetCell ds)"
      by (simp add: isSetCell_def)
    with fds mem[OF that] show ?thesis by simp
  qed
  with ds c1 show ?thesis
    by (simp add: block_def g_def nR_def nC_def)
qed


lemma demo_static_calls:
  "concat (map (\<lambda>i. concat (map (\<lambda>j.
       if staticBlocked demo_externals (groundMapData demo_map) i j
       then [PF_setCell (int j) (int i) 0] else [])
     (rev [0 ..< length [Some (1::nat), Some 1, Some 1]]))) [0 ..< length (groundMapData demo_map)]) =
   [PF_setCell 2 1 0, PF_setCell 1 1 0]"
  by code_simp

theorem createMap_static_layer_witness:
  "config demo_fresh = Some demo_config \<and>
   mapData demo_fresh = Some demo_map \<and>
   groundMapData demo_map =
     [Some 1, Some 1, Some 1] # [[Some 1, Some 2, None], [Some 1, Some 1, Some 1]] \<and>
   filter isSetCell (calls (snd (createMap demo_externals demo_fresh))) =
     [PF_setCell 2 1 0, PF_setCell 1 1 0] \<and>
   staticBlocked demo_externals (groundMapData demo_map) 1 2 \<and>
   PF_setCell 2 1 0 \<in> set (drop (length (calls demo_fresh)) (calls (snd (createMap demo_externals demo_fresh))))"
proof -
  have h1: "config demo_fresh = Some demo_config"
    by (simp add: demo_fresh_def)
  have h2: "mapData demo_fresh = Some demo_map"
    by (simp add: demo_fresh_def)
  have h3: "groundMapData demo_map =
     [Some 1, Some 1, Some 1] # [[Some 1, Some 2, None], [Some 1, Some 1, Some 1]]"
    by (simp add: demo_map_def)
  have cs: "calls demo_fresh = []"
    by (simp add: demo_fresh_def)
  have b: "staticBlocked demo_externals (groundMapData demo_map) 1 2"
    by (simp add: staticBlocked_def entryAt_def demo_externals_def h3)
  note T = createMap_static_layer[OF h1 h2 h3, of demo_externals]
  from T have T1: "filter isSetCell (calls (snd (createMap demo_externals demo_fresh))) =
           filter isSetCell (calls demo_fresh) @
           concat (map (\<lambda>i. concat (map (\<lambda>j.
               if staticBlocked demo_externals (groundMapData demo_map) i j
               then [PF_setCell (int j) (int i) 0] else [])
             (rev [0 ..< length [Some (1::nat), Some 1, Some 1]]))) [0 ..< length (groundMapData demo_map)])"
    by (rule conjunct1)
  from T have T2: "1 < length (groundMapData demo_map) \<and> 2 < length [Some (1::nat), Some 1, Some 1] \<longrightarrow>
            (PF_setCell (int 2) (int 1) 0 \<in> set (drop (length (calls demo_fresh)) (calls (snd (createMap demo_externals demo_fresh))))
             \<longleftrightarrow> staticBlocked demo_externals (groundMapData demo_map) 1 2)"
    by blast
  have c1: "filter isSetCell (calls (snd (createMap demo_externals demo_fresh))) =
      [PF_setCell 2 1 0, PF_setCell 1 1 0]"
    unfolding T1 demo_static_calls by (simp add: cs)
  from T2 b
  have c2: "PF_setCell 2 1 0 \<in> set (drop (length (calls demo_fresh)) (calls (snd (createMap demo_externals demo_fresh))))"
    by (simp add: h3)
  from h1 h2 h3 c1 b c2 show ?thesis by (simp only: simp_thms)
qed

subsection \<open>Every operation keeps the references free of duplicates\<close>

lemma noDuplicateRefs_updates [simp]:
  "noDuplicateRefs (s\<lparr>objects := ob\<rparr>) = noDuplicateRefs s"
  "noDuplicateRefs (s\<lparr>calls := cl\<rparr>) = noDuplicateRefs s"
  "noDuplicateRefs (s\<lparr>config := cg\<rparr>) = noDuplicateRefs s"
  "noDuplicateRefs (s\<lparr>currentControllable := cc\<rparr>) = noDuplicateRefs s"
  "noDuplicateRefs (s\<lparr>nextOid := nx\<rparr>) = noDuplicateRefs s"
  "noDuplicateRefs (s\<lparr>mapSizeR := mr\<rparr>) = noDuplicateRefs s"
  "noDuplicateRefs (s\<lparr>mapSizeC := mc\<rparr>) = noDuplicateRefs s"
  "noDuplicateRefs (s\<lparr>tileArray := ta\<rparr>) = noDuplicateRefs s"
  "noDuplicateRefs (s\<lparr>pathFinding := pf\<rparr>) = noDuplicateRefs s"
  "noDuplicateRefs (s\<lparr>moveEngine := me\<rparr>) = noDuplicateRefs s"
  "noDuplicateRefs (s\<lparr>mapData := md\<rparr>) = noDuplicateRefs s"
  by (simp_all add: noDuplicateRefs_def)

lemma noDuplicateRefs_tileArray_set [simp]:
  "noDuplicateRefs (tileArray_set p v s) = noDuplicateRefs s"
  by (rule noDuplicateRefs_cong) simp

lemma setCell_noDup [simp]: "noDuplicateRefs (snd (setCell a b w s)) = noDuplicateRefs s"
  by (simp add: setCell_def)

lemma setDynamicCell_noDup [simp]: "noDuplicateRefs (snd (setDynamicCell a b w s)) = noDuplicateRefs s"
  by (simp add: setDynamicCell_def)

lemma createMap_tile_noDup:
  "noDuplicateRefs s \<Longrightarrow> noDuplicateRefs (snd (createMap_tile X g i j s))"
  by (simp add: createMap_tile_def Let_def split: option.splits)

lemma createMap_object_noDup:
  assumes "noDuplicateRefs s"
  shows "noDuplicateRefs (snd (createMap_object X md i j s))"
proof -
  define p where "p = \<lparr>c = int j, r = int i\<rparr>"
  have n1: "noDuplicateRefs (objArray_set p None s)"
    using assms by (simp add: noDuplicateRefs_set)
  have "noDuplicateRefs (snd (addObjRefToLocation obj p t))" if "noDuplicateRefs t" for obj t
    using add_location_noDup[OF that] .
  then have n3: "noDuplicateRefs t'" if "addObjRefToLocation obj p t = (res, t')" "noDuplicateRefs t"
    for obj t res t'
    using that by (metis snd_conv)
  show ?thesis
    unfolding createMap_object_def Let_def p_def[symmetric]
    using n1 by (auto split: option.splits prod.splits outcome.splits dest!: n3)
qed

lemma createMap_establishes_noDup:
  assumes "config s = Some cf" and "mapData s = Some md" and "groundMapData md = row0 # rest"
  shows "noDuplicateRefs (snd (createMap X s))"
proof -
  define nR where "nR = length (groundMapData md)"
  define nC where "nC = length row0"
  define s1 where "s1 = s\<lparr>mapSizeR := int nR, mapSizeC := int nC,
                          tileArray := Some (replicate nR (\<lambda>j. None)),
                          objArray := Some (replicate nR (\<lambda>j. None)),
                          pathFinding := True,
                          calls := calls s @
                            [PF_new (int nC) (int nR) (pathFindingDiagonal cf) (pathFindingClosest cf)]\<rparr>"
  define tiles where "tiles =
    forEach (\<lambda>i. forEach (createMap_tile X (groundMapData md) i) (rev [0 ..< nC])) [0 ..< nR] s1"
  have n1: "noDuplicateRefs s1"
    by (simp add: s1_def noDuplicateRefs_def)
  have n2: "noDuplicateRefs (snd tiles)"
    unfolding tiles_def
    by (rule forEach_invariant[where P = noDuplicateRefs], rule forEach_invariant[where P = noDuplicateRefs],
        rule createMap_tile_noDup, assumption, assumption, rule n1)
  have n3: "noDuplicateRefs (snd (forEach (\<lambda>i. forEach (createMap_object X md i) (rev [0 ..< nC]))
      [0 ..< nR] (snd tiles)))"
    by (rule forEach_invariant[where P = noDuplicateRefs], rule forEach_invariant[where P = noDuplicateRefs],
        rule createMap_object_noDup, assumption, assumption, rule n2)
  have eq: "createMap X s =
      (case tiles of
         (Throw e, s2) \<Rightarrow> (Throw e, s2)
       | (Return u, s2) \<Rightarrow>
           forEach (\<lambda>i. forEach (createMap_object X md i) (rev [0 ..< nC])) [0 ..< nR] s2)"
    using assms unfolding createMap_def Let_def tiles_def s1_def nR_def nC_def by simp
  show ?thesis
  proof (cases tiles)
    case (Pair res s2)
    with n2 n3 show ?thesis by (cases res) (simp_all add: eq)
  qed
qed

lemma createMap_noDup:
  assumes "noDuplicateRefs s"
  shows "noDuplicateRefs (snd (createMap X s))"
proof (cases "config s")
  case None
  with assms show ?thesis by (simp add: createMap_def)
next
  case cf: (Some cf)
  show ?thesis
  proof (cases "mapData s")
    case None
    with cf assms show ?thesis by (simp add: createMap_def)
  next
    case md: (Some md)
    show ?thesis
    proof (cases "groundMapData md")
      case Nil
      with cf md assms show ?thesis by (simp add: createMap_def)
    next
      case (Cons row0 rest)
      from createMap_establishes_noDup[OF cf md Cons] show ?thesis .
    qed
  qed
qed

lemma destroy_cell_noDup:
  "noDuplicateRefs s \<Longrightarrow> noDuplicateRefs (snd (destroy_cell i j s))"
  by (auto simp: destroy_cell_def Let_def noDuplicateRefs_set split: option.splits outcome.splits)

lemma destroy_noDup:
  assumes "noDuplicateRefs s"
  shows "noDuplicateRefs (snd (destroy s))"
proof (cases "moveEngine s")
  case False
  with assms show ?thesis by (simp add: destroy_def)
next
  case True
  define s1 where "s1 = s\<lparr>moveEngine := False, calls := calls s @ [ME_destroy]\<rparr>"
  define cells where "cells =
    forEach (\<lambda>i. forEach (destroy_cell i) (rev [0 ..< nat (mapSizeC s1)])) [0 ..< nat (mapSizeR s1)] s1"
  have n1: "noDuplicateRefs s1" using assms by (simp add: s1_def)
  have n2: "noDuplicateRefs (snd cells)"
    unfolding cells_def
    by (rule forEach_invariant[where P = noDuplicateRefs], rule forEach_invariant[where P = noDuplicateRefs],
        rule destroy_cell_noDup, assumption, assumption, rule n1)
  have eq: "destroy s =
      (case cells of
         (Throw e, s2) \<Rightarrow> (Throw e, s2)
       | (Return u, s2) \<Rightarrow>
           if \<not> pathFinding s2 then (Throw TypeError, s2)
           else
             (let s3 = s2\<lparr>pathFinding := False, calls := calls s2 @ [PF_destroy],
                           currentControllable := None, tileArray := None, objArray := None,
                           config := None\<rparr>
              in case mapData s3 of
                   None \<Rightarrow> (Throw TypeError, s3)
                 | Some md \<Rightarrow> (Return (), s3\<lparr>mapData := None\<rparr>)))"
    using True unfolding destroy_def Let_def cells_def s1_def by simp
  have n3: "noDuplicateRefs (t\<lparr>objArray := None\<rparr>)" for t :: EngineView
    by (simp add: noDuplicateRefs_def)
  show ?thesis
  proof (cases cells)
    case (Pair res s2)
    with n2 show ?thesis
      by (cases res) (auto simp: eq Let_def noDuplicateRefs_def split: option.splits)
  qed
qed


lemma highlightItem_noDup:
  "noDuplicateRefs s \<Longrightarrow> noDuplicateRefs (snd (highlightItem v other item s))"
  by (simp add: highlightItem_def split: outcome.splits option.splits)

lemma arrangePathHighlight_noDup:
  assumes "noDuplicateRefs s"
  shows "noDuplicateRefs (snd (arrangePathHighlight cur new s))"
proof -
  have a: "noDuplicateRefs (snd (forEach (highlightItem v other) xs t))" if "noDuplicateRefs t"
    for v other xs t
    by (rule forEach_invariant[where P = noDuplicateRefs], rule highlightItem_noDup, assumption, rule that)
  define first where "first = (case cur of None \<Rightarrow> (Return (), s)
            | Some xs \<Rightarrow> forEach (highlightItem False new) xs s)"
  have n1: "noDuplicateRefs (snd first)"
    using assms a[OF assms] by (simp add: first_def split: option.splits)
  show ?thesis
  proof (cases first)
    case (Pair res s1)
    with n1 a[of s1] show ?thesis
      by (cases res) (simp_all add: arrangePathHighlight_def first_def[symmetric] split: option.splits)
  qed
qed

lemma changeObjAlphasInLocation_noDup:
  "noDuplicateRefs s \<Longrightarrow> noDuplicateRefs (snd (changeObjAlphasInLocation v p s))"
  by (simp add: changeObjAlphasInLocation_def split: outcome.splits option.splits)

lemma arrangeObjTransperancies_noDup:
  assumes "noDuplicateRefs s"
  shows "noDuplicateRefs (snd (arrangeObjTransperancies obj prev p s))"
proof (cases "config s")
  case None
  with assms show ?thesis by (simp add: arrangeObjTransperancies_def)
next
  case (Some cf)
  show ?thesis
  proof (cases "changeTransperancies cf")
    case False
    with Some assms show ?thesis by (simp add: arrangeObjTransperancies_def)
  next
    case True
    define xs where "xs =
       (if c prev > 0 then [(100::nat, \<lparr>c = c prev - 1, r = r prev\<rparr>)] else []) @
       (if c prev > 0 \<and> r prev < mapSizeR s - 1
        then [(100, \<lparr>c = c prev - 1, r = r prev + 1\<rparr>)] else []) @
       (if r prev < mapSizeR s - 1 then [(100, \<lparr>c = c prev, r = r prev + 1\<rparr>)] else []) @
       (if c p > 0 then [(70, \<lparr>c = c p - 1, r = r p\<rparr>)] else []) @
       (if c p > 0 \<and> r p < mapSizeR s - 1
        then [(70, \<lparr>c = c p - 1, r = r p + 1\<rparr>)] else []) @
       (if r p < mapSizeR s - 1 then [(70, \<lparr>c = c p, r = r p + 1\<rparr>)] else [])"
    define first where "first = (if currentControllable s = Some obj
       then forEach (\<lambda>(v, q). changeObjAlphasInLocation v q) xs s else (Return (), s))"
    have eq: "arrangeObjTransperancies obj prev p s =
        (case first of
           (Throw e, s1) \<Rightarrow> (Throw e, s1)
         | (Return u, s1) \<Rightarrow>
             (Return (), s1\<lparr>objects := (objects s1)(obj := (objects s1 obj)\<lparr>alpha := 100\<rparr>)\<rparr>))"
      using Some True unfolding arrangeObjTransperancies_def first_def xs_def by simp
    have "noDuplicateRefs (snd (forEach (\<lambda>(v, q). changeObjAlphasInLocation v q) xs s))"
    proof (rule forEach_invariant[where P = noDuplicateRefs])
      fix q :: "nat \<times> pos" and u :: EngineView
      assume "noDuplicateRefs u"
      then show "noDuplicateRefs (snd ((\<lambda>(v, q). changeObjAlphasInLocation v q) q u))"
        by (cases q) (simp add: changeObjAlphasInLocation_noDup)
    qed (rule assms)
    with assms have n1: "noDuplicateRefs (snd first)" by (simp add: first_def)
    show ?thesis
    proof (cases first)
      case (Pair res s1)
      with n1 show ?thesis by (cases res) (simp_all add: eq)
    qed
  qed
qed

lemma depthsCell_noDup:
  "noDuplicateRefs s \<Longrightarrow> noDuplicateRefs (snd (depthsCell q s))"
  by (simp add: depthsCell_def split: outcome.splits option.splits)

lemma arrangeDepthsFromLocation_noDup:
  "noDuplicateRefs s \<Longrightarrow> noDuplicateRefs (snd (arrangeDepthsFromLocation p s))"
  unfolding arrangeDepthsFromLocation_def
  by (rule forEach_invariant[where P = noDuplicateRefs], rule depthsCell_noDup)

lemma getPath_noDup [simp]:
  "noDuplicateRefs (snd (getPath X a b s)) = noDuplicateRefs s"
  by (simp add: getPath_def Let_def)

lemma prepareForMove_noDup [simp]:
  "noDuplicateRefs (snd (prepareForMove X obj path speed s)) = noDuplicateRefs s"
  by (simp add: prepareForMove_def)

lemma prototype_f_noDup [simp]:
  "noDuplicateRefs (snd (prototype_f obj s)) = noDuplicateRefs s"
  by (simp add: prototype_f_def Let_def)

lemma moveObjThrough_instant_noDup:
  assumes "noDuplicateRefs s"
  shows "noDuplicateRefs (snd (moveObjThrough_instant obj path s))"
proof (cases "nthItem path 0")
  case None
  with assms show ?thesis by (simp add: moveObjThrough_instant_def)
next
  case (Some p0)
  show ?thesis
  proof (cases "tileArray_get s p0")
    case (Throw e)
    with Some assms show ?thesis by (simp add: moveObjThrough_instant_def)
  next
    case (Return item)
    show ?thesis
    proof (cases item)
      case None
      with Some Return assms show ?thesis by (simp add: moveObjThrough_instant_def)
    next
      case tile: (Some tile)
      obtain r1 s1 where a: "arrangeObjTransperancies obj (mapPos (objects s obj)) (tile_mapPos tile) s = (r1, s1)"
        by (cases "arrangeObjTransperancies obj (mapPos (objects s obj)) (tile_mapPos tile) s")
      with arrangeObjTransperancies_noDup[OF assms, of obj "mapPos (objects s obj)" "tile_mapPos tile"]
      have n1: "noDuplicateRefs s1" by simp
      obtain r2 s2 where b: "arrangeObjLocation obj (tile_mapPos tile) s1 = (r2, s2)"
        by (cases "arrangeObjLocation obj (tile_mapPos tile) s1")
      with arrangeObjLocation_noDup[OF n1, of obj "tile_mapPos tile"] have n2: "noDuplicateRefs s2" by simp
      from arrangeDepthsFromLocation_noDup[OF n2, of "tile_mapPos tile"]
      have n3: "noDuplicateRefs (snd (arrangeDepthsFromLocation (tile_mapPos tile) s2))" .
      from Some Return tile a b n1 n2 n3 show ?thesis
        by (cases r1; cases r2) (simp_all add: moveObjThrough_instant_def)
    qed
  qed
qed


lemma keepsNoDuplicateRefs_simps [simp]:
  "keepsNoDuplicateRefs None"
  "keepsNoDuplicateRefs (Some (res, s')) = noDuplicateRefs s'"
  by (simp_all add: keepsNoDuplicateRefs_def)

lemma keeps_Some: "keepsNoDuplicateRefs (Some x) = noDuplicateRefs (snd x)"
  by (cases x) simp

lemma keeps_bind:
  assumes "keepsNoDuplicateRefs m"
    and "\<And>v s'. noDuplicateRefs s' \<Longrightarrow> noDuplicateRefs (snd (g v s'))"
  shows "keepsNoDuplicateRefs
     (case m of None \<Rightarrow> None | Some (Throw e, s') \<Rightarrow> Some (Throw e, s')
      | Some (Return v, s') \<Rightarrow> Some (g v s'))"
  using assms by (auto simp: keeps_Some split: option.splits prod.splits outcome.splits)

lemma checkAndMove_Suc_noDup:
  assumes ih1: "\<And>X obj path speed s res s'. moveObjThrough n X obj path speed s = Some (res, s') \<Longrightarrow>
      noDuplicateRefs s \<Longrightarrow> noDuplicateRefs s'"
    and inv: "noDuplicateRefs s"
  shows "keepsNoDuplicateRefs (checkAndMoveObjectToLocation (Suc n) X obj p speed s)"
proof -
  obtain r1 s1 where a: "getPath X (mapPos (objects s obj)) p s = (r1, s1)"
    by (cases "getPath X (mapPos (objects s obj)) p s")
  with inv getPath_noDup[of X "mapPos (objects s obj)" p s] have n1: "noDuplicateRefs s1" by simp
  show ?thesis
  proof (cases r1)
    case (Throw e)
    with a n1 show ?thesis by simp
  next
    case (Return res)
    show ?thesis
    proof (cases res)
      case None
      with a n1 Return show ?thesis by simp
    next
      case (Some path)
      show ?thesis
      proof (cases "moveObjThrough n X obj path speed s1")
        case None
        with a Return Some show ?thesis by simp
      next
        case (Some x)
        obtain r2 s2 where x: "x = (r2, s2)" by (cases x)
        from ih1[OF Some[unfolded x] n1] have "noDuplicateRefs s2" .
        with a Return \<open>res = Some path\<close> Some x show ?thesis by (cases r2) simp_all
      qed
    qed
  qed
qed


lemma keeps_map:
  "keepsNoDuplicateRefs
     (case m of None \<Rightarrow> None | Some (Throw e, s') \<Rightarrow> Some (Throw e, s')
      | Some (Return v, s') \<Rightarrow> Some (Return (f v), s')) = keepsNoDuplicateRefs m"
  by (auto split: option.splits prod.splits outcome.splits)

lemma onObjMoveStepBegin_Suc_noDup:
  assumes ih3: "\<And>X obj p speed s. noDuplicateRefs s \<Longrightarrow>
      keepsNoDuplicateRefs (checkAndMoveObjectToLocation n X obj p speed s)"
    and inv: "noDuplicateRefs s"
  shows "keepsNoDuplicateRefs (onObjMoveStepBegin (Suc n) X obj p s)"
  using inv by (simp add: Let_def keeps_map ih3 split: option.splits)


lemma moveObjThrough_Suc_noDup:
  assumes ih2: "\<And>X obj p s. noDuplicateRefs s \<Longrightarrow>
      keepsNoDuplicateRefs (onObjMoveStepBegin n X obj p s)"
    and inv: "noDuplicateRefs s"
  shows "keepsNoDuplicateRefs (moveObjThrough (Suc n) X obj path speed s)"
proof (cases "config s")
  case None
  with inv show ?thesis by simp
next
  case (Some cf)
  show ?thesis
  proof (cases "instantObjectRelocation cf")
    case True
    with Some moveObjThrough_instant_noDup[OF inv, of obj path] show ?thesis
      by (simp add: keeps_Some)
  next
    case False
    obtain r1 s1 where a: "(if highlightPath cf \<and> currentControllable s = Some obj
                 then arrangePathHighlight (currentPath (objects s obj)) (Some path) s
                 else (Return (), s)) = (r1, s1)"
      by (cases "(if highlightPath cf \<and> currentControllable s = Some obj
                 then arrangePathHighlight (currentPath (objects s obj)) (Some path) s
                 else (Return (), s))")
    have n1: "noDuplicateRefs s1"
      using a inv arrangePathHighlight_noDup[OF inv, of "currentPath (objects s obj)" "Some path"]
      by (auto split: if_splits)
    obtain r3 s3 where b: "prepareForMove X obj path speed s1 = (r3, s3)"
      by (cases "prepareForMove X obj path speed s1")
    with n1 prepareForMove_noDup[of X obj path speed s1] have n3: "noDuplicateRefs s3" by simp
    show ?thesis
      using Some False a b n1 n3
      by (cases r1; cases r3)
         (simp_all add: stopObject_call_def Let_def keeps_map ih2 split: option.splits)
  qed
qed

lemma movement_noDup:
  "(\<forall>X obj path speed s. noDuplicateRefs s \<longrightarrow>
      keepsNoDuplicateRefs (moveObjThrough n X obj path speed s)) \<and>
   (\<forall>X obj p s. noDuplicateRefs s \<longrightarrow>
      keepsNoDuplicateRefs (onObjMoveStepBegin n X obj p s)) \<and>
   (\<forall>X obj p speed s. noDuplicateRefs s \<longrightarrow>
      keepsNoDuplicateRefs (checkAndMoveObjectToLocation n X obj p speed s))"
proof (induction n)
  case 0
  show ?case by simp
next
  case (Suc n)
  from Suc have k1: "keepsNoDuplicateRefs (moveObjThrough n X obj path speed s)"
    if "noDuplicateRefs s" for X obj path speed s
    using that by (elim conjE allE impE)
  from Suc have k2: "keepsNoDuplicateRefs (onObjMoveStepBegin n X obj p s)"
    if "noDuplicateRefs s" for X obj p s
    using that by (elim conjE allE impE)
  from Suc have k3: "keepsNoDuplicateRefs (checkAndMoveObjectToLocation n X obj p speed s)"
    if "noDuplicateRefs s" for X obj p speed s
    using that by (elim conjE allE impE)
  have ih1: "noDuplicateRefs s'"
    if "moveObjThrough n X obj path speed s = Some (res, s')" "noDuplicateRefs s"
    for X obj path speed s res s'
    using k1[OF that(2), of X obj path speed] that(1) by simp
  show ?case
  proof (intro conjI allI impI)
    fix X obj path speed s
    assume inv: "noDuplicateRefs s"
    show "keepsNoDuplicateRefs (moveObjThrough (Suc n) X obj path speed s)"
      by (rule moveObjThrough_Suc_noDup) (rule k2, assumption, rule inv)
  next
    fix X obj p s
    assume inv: "noDuplicateRefs s"
    show "keepsNoDuplicateRefs (onObjMoveStepBegin (Suc n) X obj p s)"
      by (rule onObjMoveStepBegin_Suc_noDup) (rule k3, assumption, rule inv)
  next
    fix X obj p speed s
    assume inv: "noDuplicateRefs s"
    show "keepsNoDuplicateRefs (checkAndMoveObjectToLocation (Suc n) X obj p speed s)"
      by (rule checkAndMove_Suc_noDup) (rule ih1, assumption, assumption, rule inv)
  qed
qed


lemma moveObjThrough_noDup:
  "noDuplicateRefs s \<Longrightarrow> keepsNoDuplicateRefs (moveObjThrough n X obj path speed s)"
  using movement_noDup[of n] by (elim conjE allE impE)

lemma onObjMoveStepBegin_noDup:
  "noDuplicateRefs s \<Longrightarrow> keepsNoDuplicateRefs (onObjMoveStepBegin n X obj p s)"
  using movement_noDup[of n] by (elim conjE allE impE)

lemma checkAndMoveObjectToLocation_noDup:
  "noDuplicateRefs s \<Longrightarrow> keepsNoDuplicateRefs (checkAndMoveObjectToLocation n X obj p speed s)"
  using movement_noDup[of n] by (elim conjE allE impE)

lemma keeps_bind2:
  assumes "keepsNoDuplicateRefs m"
    and "\<And>v s'. noDuplicateRefs s' \<Longrightarrow> keepsNoDuplicateRefs (g v s')"
  shows "keepsNoDuplicateRefs
     (case m of None \<Rightarrow> None | Some (Throw e, s') \<Rightarrow> Some (Throw e, s')
      | Some (Return v, s') \<Rightarrow> g v s')"
  using assms by (auto split: option.splits prod.splits outcome.splits)

lemma onObjMoveStepEnd_noDup:
  assumes inv: "noDuplicateRefs s"
  shows "keepsNoDuplicateRefs (onObjMoveStepEnd n X obj s)"
proof -
  define s1 where "s1 = s\<lparr>objects := (objects s)(obj := (objects s obj)
                 \<lparr>currentPathStep := currentPathStep (objects s obj) - 1,
                  currentTarget := None, currentTargetTile := None\<rparr>)\<rparr>"
  have n1: "noDuplicateRefs s1" using inv by (simp add: s1_def)
  show ?thesis
  proof (cases "moveEngine s1")
    case False
    with n1 show ?thesis by (simp add: onObjMoveStepEnd_def Let_def s1_def)
  next
    case True
    show ?thesis
      unfolding onObjMoveStepEnd_def Let_def s1_def[symmetric]
      using True
      apply (simp only: if_False not_True_eq_False simp_thms)
      apply (rule keeps_bind2)
       apply (simp add: n1 keeps_map checkAndMoveObjectToLocation_noDup moveObjThrough_noDup
          split: option.splits)
      apply (simp split: option.splits outcome.splits)
      done
  qed
qed


lemma alreadyNextToObject_noDup:
  assumes inv: "noDuplicateRefs s"
  shows "keepsNoDuplicateRefs (alreadyNextToObject n X cc tile s)"
proof -
  obtain r1 s1 where a: "arrangePathHighlight (currentPath (objects s cc)) None s = (r1, s1)"
    by (cases "arrangePathHighlight (currentPath (objects s cc)) None s")
  with arrangePathHighlight_noDup[OF inv, of "currentPath (objects s cc)" None]
  have n1: "noDuplicateRefs s1" by simp
  from a n1 show ?thesis
    by (cases r1) (simp_all add: alreadyNextToObject_def stopObject_call_def)
qed

lemma adjacentCells_loop_noDup:
  "noDuplicateRefs s \<Longrightarrow> keepsNoDuplicateRefs (adjacentCells_loop n X cells minLength minPath s)"
proof (induction cells arbitrary: minLength minPath s)
  case Nil
  then show ?case by simp
next
  case (Cons cell cells)
  show ?case
  proof (cases "tileArray_get s cell")
    case (Throw e)
    with Cons.prems show ?thesis by simp
  next
    case (Return item)
    show ?thesis
    proof (cases item)
      case None
      with Return Cons show ?thesis by simp
    next
      case (Some tile)
      show ?thesis
      proof (cases "currentControllable s")
        case None
        with Return Some Cons.prems show ?thesis by simp
      next
        case cc: (Some cc)
        show ?thesis
        proof (cases "c (tile_mapPos tile) = c (mapPos (objects s cc)) \<and>
                  r (tile_mapPos tile) = r (mapPos (objects s cc))")
          case True
          with Return Some cc alreadyNextToObject_noDup[OF Cons.prems, of n X cc tile] show ?thesis
            by (simp add: keeps_map)
        next
          case False
          obtain r1 s1 where g: "getPath X (mapPos (objects s cc)) (tile_mapPos tile) s = (r1, s1)"
            by (cases "getPath X (mapPos (objects s cc)) (tile_mapPos tile) s")
          with Cons.prems getPath_noDup[of X "mapPos (objects s cc)" "tile_mapPos tile" s]
          have n1: "noDuplicateRefs s1" by simp
          from Return Some cc False g n1 Cons.IH[OF n1] show ?thesis
            by (cases r1) (auto split: option.splits)
        qed
      qed
    qed
  qed
qed

lemma moveCurrentControllableToObj_noDup:
  assumes inv: "noDuplicateRefs s"
  shows "keepsNoDuplicateRefs (moveCurrentControllableToObj n X obj speed s)"
proof (cases "currentControllable s")
  case None
  with inv show ?thesis by (simp add: moveCurrentControllableToObj_def)
next
  case (Some cc0)
  define first where "first = (case currentInteractionOffset (objects s obj) of
                   None \<Rightarrow> Some (Return False, s)
                 | Some off \<Rightarrow>
                     (case checkAndMoveObjectToLocation n X cc0
                             \<lparr>c = c (mapPos (objects s obj)) + c off,
                              r = r (mapPos (objects s obj)) + r off\<rparr> speed s of
                        None \<Rightarrow> None
                      | Some (Throw e, s1) \<Rightarrow> Some (Throw e, s1)
                      | Some (Return v, s1) \<Rightarrow> Some (Return (truthy v), s1)))"
  have k: "keepsNoDuplicateRefs first"
    using inv by (simp add: first_def keeps_map checkAndMoveObjectToLocation_noDup split: option.splits)
  have rest: "keepsNoDuplicateRefs
        (if \<not> pathFinding s1 then Some (Throw TypeError, s1)
         else
           (let target = objects s1 obj;
                cellArray = getAdjacentOpenCells_returns X (calls s1)
                              (c (mapPos target)) (r (mapPos target))
                              (columnSpan target) (rowSpan target);
                s2 = s1\<lparr>calls := calls s1 @
                       [PF_getAdjacentOpenCells (c (mapPos target)) (r (mapPos target))
                          (columnSpan target) (rowSpan target) cellArray]\<rparr>
            in case adjacentCells_loop n X cellArray 3000 None s2 of
                 None \<Rightarrow> None
               | Some (Throw e, s3) \<Rightarrow> Some (Throw e, s3)
               | Some (Return (EarlyReturn b), s3) \<Rightarrow> Some (Return b, s3)
               | Some (Return (LoopDone None), s3) \<Rightarrow> Some (Return False, s3)
               | Some (Return (LoopDone (Some minPath)), s3) \<Rightarrow>
                   (case currentControllable s3 of
                      None \<Rightarrow> Some (Throw TypeError, s3)
                    | Some cc \<Rightarrow>
                        (case moveObjThrough n X cc minPath speed s3 of
                           None \<Rightarrow> None
                         | Some (Throw e, s4) \<Rightarrow> Some (Throw e, s4)
                         | Some (Return u, s4) \<Rightarrow> Some (Return True, s4)))))"
    if n1: "noDuplicateRefs s1" for s1
  proof (cases "pathFinding s1")
    case False
    with n1 show ?thesis by simp
  next
    case True
    define s2 where "s2 = s1\<lparr>calls := calls s1 @
                       [PF_getAdjacentOpenCells (c (mapPos (objects s1 obj))) (r (mapPos (objects s1 obj)))
                          (columnSpan (objects s1 obj)) (rowSpan (objects s1 obj))
                          (getAdjacentOpenCells_returns X (calls s1)
                              (c (mapPos (objects s1 obj))) (r (mapPos (objects s1 obj)))
                              (columnSpan (objects s1 obj)) (rowSpan (objects s1 obj)))]\<rparr>"
    have n2: "noDuplicateRefs s2" using n1 by (simp add: s2_def)
    note kl = adjacentCells_loop_noDup[OF n2, of n X _ 3000 None]
    show ?thesis
      using True
      apply (simp add: Let_def s2_def[symmetric])
      apply (rule keeps_bind2[OF kl])
      apply (simp add: keeps_map moveObjThrough_noDup split: loop_exit.splits option.splits)
      done
  qed
  show ?thesis
    unfolding moveCurrentControllableToObj_def
    using Some
    apply (simp add: first_def[symmetric])
    apply (rule keeps_bind2[OF k])
    subgoal for v s' using rest[of s'] by (cases v) simp_all
    done
qed


text \<open>
  C10. No list of object references holds an object twice, and every operation of the
  view that writes the object table keeps it so: the single-cell add and remove, their
  loops over a footprint, the removal of all references of a cell, the relocation of an
  object, the movement methods that relocate (whenever they return or throw), and
  \<^verbatim>\<open>createMap\<close> and \<^verbatim>\<open>destroy\<close>. \<^verbatim>\<open>createMap\<close> establishes it: the table it builds has the
  property whatever the table was before. The add appends the object only when the list
  does not hold it; the remove takes out one entry and nothing else.
\<close>

theorem no_duplicate_references_invariant:
  assumes "noDuplicateRefs s"
  shows "noDuplicateRefs (snd (addObjRefToSingleLocation obj p s)) \<and>
         noDuplicateRefs (snd (removeObjRefFromSingleLocation obj p s)) \<and>
         noDuplicateRefs (snd (removeAllObjectRefsFromLocation p s)) \<and>
         noDuplicateRefs (snd (addObjRefToLocation obj p s)) \<and>
         noDuplicateRefs (snd (removeObjRefFromLocation obj p s)) \<and>
         noDuplicateRefs (snd (arrangeObjLocation obj p s)) \<and>
         (\<forall>cell. objArray_get s p = Return cell \<longrightarrow>
            objArray_get (snd (addObjRefToSingleLocation obj p s)) p =
              Return (Some (case cell of None \<Rightarrow> [obj]
                            | Some a \<Rightarrow> if obj \<in> set a then a else a @ [obj]))) \<and>
         (\<forall>a. pathFinding s \<and> objArray_get s p = Return (Some a) \<longrightarrow>
            objArray_get (snd (removeObjRefFromSingleLocation obj p s)) p =
              Return (if remove1 obj a = [] then None else Some (remove1 obj a))) \<and>
         noDuplicateRefs (snd (createMap X s)) \<and>
         noDuplicateRefs (snd (destroy s)) \<and>
         noDuplicateRefs (snd (moveObjThrough_instant obj path s)) \<and>
         keepsNoDuplicateRefs (moveObjThrough n X obj path speed s) \<and>
         keepsNoDuplicateRefs (onObjMoveStepBegin n X obj p s) \<and>
         keepsNoDuplicateRefs (checkAndMoveObjectToLocation n X obj p speed s) \<and>
         keepsNoDuplicateRefs (onObjMoveStepEnd n X obj s) \<and>
         keepsNoDuplicateRefs (moveCurrentControllableToObj n X obj speed s) \<and>
         (\<forall>t cf md row0 rest.
            config t = Some cf \<and> mapData t = Some md \<and> groundMapData md = row0 # rest \<longrightarrow>
            noDuplicateRefs (snd (createMap X t)))"
proof -
  have est: "\<forall>t cf md row0 rest.
      config t = Some cf \<and> mapData t = Some md \<and> groundMapData md = row0 # rest \<longrightarrow>
      noDuplicateRefs (snd (createMap X t))"
    using createMap_establishes_noDup by blast
  have cell: "\<forall>cell. objArray_get s p = Return cell \<longrightarrow>
            objArray_get (snd (addObjRefToSingleLocation obj p s)) p =
              Return (Some (case cell of None \<Rightarrow> [obj]
                            | Some a \<Rightarrow> if obj \<in> set a then a else a @ [obj]))"
    using add_single_cell[of s p _ obj] by blast
  have rem: "\<forall>a. pathFinding s \<and> objArray_get s p = Return (Some a) \<longrightarrow>
            objArray_get (snd (removeObjRefFromSingleLocation obj p s)) p =
              Return (if remove1 obj a = [] then None else Some (remove1 obj a))"
    using remove_single_objArray(1)[of s p _ obj] by blast
  show ?thesis
    by (intro conjI add_single_noDup[OF assms] remove_single_noDup[OF assms]
        removeAll_noDup[OF assms] add_location_noDup[OF assms]
        remove_location_noDup[OF assms] arrangeObjLocation_noDup[OF assms] cell rem
        createMap_noDup[OF assms] destroy_noDup[OF assms] moveObjThrough_instant_noDup[OF assms]
        moveObjThrough_noDup[OF assms] onObjMoveStepBegin_noDup[OF assms]
        checkAndMoveObjectToLocation_noDup[OF assms] onObjMoveStepEnd_noDup[OF assms]
        moveCurrentControllableToObj_noDup[OF assms] est)
qed

lemma demo_view_noDup: "noDuplicateRefs demo_view"
  by (auto simp: noDuplicateRefs_def demo_view_def nth_Cons' split: if_splits)

theorem no_duplicate_references_invariant_witness:
  "noDuplicateRefs demo_view \<and>
   pathFinding demo_view \<and>
   objArray_get demo_view \<lparr>c = 1, r = 1\<rparr> = Return (Some [1, 2]) \<and>
   noDuplicateRefs (snd (addObjRefToSingleLocation 1 \<lparr>c = 1, r = 1\<rparr> demo_view)) \<and>
   objArray_get (snd (addObjRefToSingleLocation 1 \<lparr>c = 1, r = 1\<rparr> demo_view)) \<lparr>c = 1, r = 1\<rparr> =
     Return (Some [1, 2]) \<and>
   objArray_get (snd (addObjRefToSingleLocation 3 \<lparr>c = 1, r = 1\<rparr> demo_view)) \<lparr>c = 1, r = 1\<rparr> =
     Return (Some [1, 2, 3]) \<and>
   objArray_get (snd (removeObjRefFromSingleLocation 1 \<lparr>c = 1, r = 1\<rparr> demo_view)) \<lparr>c = 1, r = 1\<rparr> =
     Return (Some [2]) \<and>
   noDuplicateRefs (snd (arrangeObjLocation 3 \<lparr>c = 1, r = 1\<rparr> demo_view)) \<and>
   noDuplicateRefs (snd (destroy demo_view)) \<and>
   config demo_fresh = Some demo_config \<and>
   mapData demo_fresh = Some demo_map \<and>
   groundMapData demo_map =
     [Some 1, Some 1, Some 1] # [[Some 1, Some 2, None], [Some 1, Some 1, Some 1]] \<and>
   noDuplicateRefs (snd (createMap demo_externals demo_fresh))"
proof -
  have h0: "noDuplicateRefs demo_view"
    by (rule demo_view_noDup)
  have h1: "pathFinding demo_view"
    by (simp add: demo_view_def)
  have h2: "objArray_get demo_view \<lparr>c = 1, r = 1\<rparr> = Return (Some [1, 2])"
    by (simp add: demo_view_def objArray_get_def)
  have f1: "config demo_fresh = Some demo_config"
    by (simp add: demo_fresh_def)
  have f2: "mapData demo_fresh = Some demo_map"
    by (simp add: demo_fresh_def)
  have f3: "groundMapData demo_map =
     [Some 1, Some 1, Some 1] # [[Some 1, Some 2, None], [Some 1, Some 1, Some 1]]"
    by (simp add: demo_map_def)
  note T1 = no_duplicate_references_invariant[OF h0, of 1 "\<lparr>c = 1, r = 1\<rparr>" demo_externals]
  note T3 = no_duplicate_references_invariant[OF h0, of 3 "\<lparr>c = 1, r = 1\<rparr>" demo_externals]
  from T1 have a1: "noDuplicateRefs (snd (addObjRefToSingleLocation 1 \<lparr>c = 1, r = 1\<rparr> demo_view))"
    by (rule conjunct1)
  from T1 h2 have a2: "objArray_get (snd (addObjRefToSingleLocation 1 \<lparr>c = 1, r = 1\<rparr> demo_view)) \<lparr>c = 1, r = 1\<rparr> =
     Return (Some [1, 2])" by simp
  from T3 h2 have a3: "objArray_get (snd (addObjRefToSingleLocation 3 \<lparr>c = 1, r = 1\<rparr> demo_view)) \<lparr>c = 1, r = 1\<rparr> =
     Return (Some [1, 2, 3])" by simp
  from T1 h1 h2 have a4: "objArray_get (snd (removeObjRefFromSingleLocation 1 \<lparr>c = 1, r = 1\<rparr> demo_view)) \<lparr>c = 1, r = 1\<rparr> =
     Return (Some [2])" by simp
  from T3 have a5: "noDuplicateRefs (snd (arrangeObjLocation 3 \<lparr>c = 1, r = 1\<rparr> demo_view))"
    by blast
  from T1 have a6: "noDuplicateRefs (snd (destroy demo_view))"
    by blast
  from T1 f1 f2 f3 have a7: "noDuplicateRefs (snd (createMap demo_externals demo_fresh))"
    by blast
  from h0 h1 h2 a1 a2 a3 a4 a5 a6 f1 f2 f3 a7 show ?thesis by (simp only: simp_thms)
qed

subsection \<open>A step begins onto an open cell only\<close>

lemma appends_refl:
  "\<exists>ds. calls s = calls s @ ds \<and> filter P ds = []"
  by simp






lemma objArray_set_calls [simp]: "calls (objArray_set p v s) = calls s"
  by (simp add: objArray_set_def split: option.splits)



















lemma addsCheckedSteps_None [simp]: "addsCheckedSteps s None"
  by (simp add: addsCheckedSteps_def)











lemma stepsOntoOpenCells_solve [simp]:
  "stepsOntoOpenCells (PF_solve a b a' b' sol # ds) = stepsOntoOpenCells ds"
  by (simp add: stepsOntoOpenCells_def isStepCall_def)








end
